theory Spec2Isabelle
  imports
    Main
    "HOL-Library.Multiset"
    "HOL-Library.Sublist"
    "HOL-Library.Char_ord"
    "HOL-Library.List_Lexorder"
    "HOL-Library.Product_Lexorder"
begin

section \<open>errcheck: the detection engine of errcheck.go\<close>

text \<open>
  The development follows \<^verbatim>\<open>errcheck/errcheck.go\<close>. Go strings are byte strings
  (\<^typ>\<open>string\<close>), compared bytewise and lexicographically as Go's \<^verbatim>\<open><\<close> does. A run-time
  panic (an index out of range) is the value \<^term>\<open>None\<close> of an option type; Go's \<^verbatim>\<open>error\<close>
  results are values of the datatype \<open>err\<close>, with \<^verbatim>\<open>nil\<close> as \<^term>\<open>None\<close>.
\<close>

subsection \<open>Regular expressions (package regexp, as far as the two patterns need it)\<close>

datatype rexp =
    Zero
  | Eps
  | Lit char
  | Dot
  | AnyChar
  | Alt rexp rexp
  | Seq rexp rexp
  | Star rexp

text \<open>\<open>Dot\<close> is Go's \<^verbatim>\<open>.\<close> without the \<^verbatim>\<open>s\<close> flag: any character but a newline.
  \<open>AnyChar\<close> is any character at all; it pads a pattern that is not anchored.\<close>

fun nullable :: "rexp \<Rightarrow> bool" where
  "nullable Zero = False"
| "nullable Eps = True"
| "nullable (Lit c) = False"
| "nullable Dot = False"
| "nullable AnyChar = False"
| "nullable (Alt r s) = (nullable r \<or> nullable s)"
| "nullable (Seq r s) = (nullable r \<and> nullable s)"
| "nullable (Star r) = True"

fun deriv :: "char \<Rightarrow> rexp \<Rightarrow> rexp" where
  "deriv c Zero = Zero"
| "deriv c Eps = Zero"
| "deriv c (Lit d) = (if c = d then Eps else Zero)"
| "deriv c Dot = (if c = CHR 0x0A then Zero else Eps)"
| "deriv c AnyChar = Eps"
| "deriv c (Alt r s) = Alt (deriv c r) (deriv c s)"
| "deriv c (Seq r s) =
     (if nullable r then Alt (Seq (deriv c r) s) (deriv c s) else Seq (deriv c r) s)"
| "deriv c (Star r) = Seq (deriv c r) (Star r)"

fun matches :: "rexp \<Rightarrow> string \<Rightarrow> bool" where
  "matches r [] = nullable r"
| "matches r (c # cs) = matches (deriv c r) cs"

fun lits :: "string \<Rightarrow> rexp" where
  "lits [] = Eps"
| "lits (c # cs) = Seq (Lit c) (lits cs)"

text \<open>A compiled pattern: whether it starts with \<^verbatim>\<open>^\<close>, its body, whether it ends with
  \<^verbatim>\<open>$\<close>. Without the \<^verbatim>\<open>m\<close> flag the two anchors are the beginning and the end of the text.
  \<^verbatim>\<open>MatchString\<close> looks for a match anywhere in the text, so an unanchored side is padded.\<close>

record regexp =
  re_bol :: bool
  re_body :: rexp
  re_eol :: bool

definition MatchString :: "regexp \<Rightarrow> string \<Rightarrow> bool" where
  "MatchString re s =
     matches (Seq (if re_bol re then Eps else Star AnyChar)
               (Seq (re_body re) (if re_eol re then Eps else Star AnyChar))) s"

text \<open>\<^verbatim>\<open>regexp.MustCompile("^// Code generated .* DO NOT EDIT\\.$")\<close>\<close>

definition generatedCodeRegexp :: regexp where
  "generatedCodeRegexp =
     \<lparr> re_bol = True,
       re_body = Seq (lits ''// Code generated '') (Seq (Star Dot) (lits '' DO NOT EDIT.'')),
       re_eol = True \<rparr>"

text \<open>\<^verbatim>\<open>regexp.MustCompile(".*")\<close>\<close>

definition dotStar :: regexp where
  "dotStar = \<lparr> re_bol = False, re_body = Star Dot, re_eol = False \<rparr>"

subsection \<open>Positions and findings\<close>

type_synonym token_Pos = nat

record Position =
  Filename :: string
  Offset :: int
  Line :: int
  Column :: int

text \<open>\<^verbatim>\<open>UncheckedError\<close>; its field \<^verbatim>\<open>Line\<close> (the text of the line) is \<open>LineText\<close> here,
  because \<open>Line\<close> is the line number of a \<^typ>\<open>Position\<close>.\<close>

record UncheckedError =
  Pos :: Position
  LineText :: string
  FuncName :: string

subsection \<open>What go/types and go/ast supply\<close>

text \<open>A \<^verbatim>\<open>types.Type\<close>: the three kinds the checker tells apart, and every other kind
  (basic, interface literal, slice, signature, ...), each with its printed form.\<close>

datatype gtype =
    Named string
  | Pointer gtype
  | Tuple "gtype list"
  | OtherType string

fun joinComma :: "string list \<Rightarrow> string" where
  "joinComma [] = []"
| "joinComma [s] = s"
| "joinComma (s # t # ss) = s @ '', '' @ joinComma (t # ss)"

fun type_String :: "gtype \<Rightarrow> string" where
  "type_String (Named n) = n"
| "type_String (Pointer t) = ''*'' @ type_String t"
| "type_String (Tuple ts) = ''('' @ joinComma (map type_String ts) @ '')''"
| "type_String (OtherType s) = s"

record gopkg =
  pkg_Name :: string
  pkg_Path :: string

text \<open>A \<^verbatim>\<open>types.Object\<close>: a \<^verbatim>\<open>*types.Func\<close> with its \<^verbatim>\<open>FullName()\<close>, \<^verbatim>\<open>Name()\<close> and
  \<^verbatim>\<open>Pkg()\<close>; a \<^verbatim>\<open>*types.Var\<close>; a \<^verbatim>\<open>*types.Builtin\<close> (no package); any other object.\<close>

datatype object =
    Func string string "gopkg option"
  | Var string "gopkg option"
  | Builtin string
  | OtherObject string "gopkg option"

fun object_Pkg :: "object \<Rightarrow> gopkg option" where
  "object_Pkg (Func full n p) = p"
| "object_Pkg (Var n p) = p"
| "object_Pkg (Builtin n) = None"
| "object_Pkg (OtherObject n p) = p"

text \<open>The syntax tree. \<open>Call\<close> is \<^verbatim>\<open>ast.CallExpr\<close> (Fun, Lparen, Args); \<open>TypeAssertExpr\<close>
  has X and Type, the latter nil in the type-switch form \<^verbatim>\<open>x.(type)\<close>; \<open>SelectorExpr\<close> has
  X and the identifier Sel (its NamePos and Name). \<open>OtherExpr\<close> is any other expression
  (with its \<^verbatim>\<open>Pos()\<close>) and \<open>OtherNode\<close> any other node, each with the children that
  \<^verbatim>\<open>ast.Walk\<close> visits, in order.\<close>

datatype expr =
    Ident token_Pos string
  | SelectorExpr expr token_Pos string
  | CallExpr call
  | TypeAssertExpr expr "expr option"
  | OtherExpr token_Pos "node list"
and call =
    Call expr token_Pos "expr list"
and node =
    Expr expr
  | ExprStmt expr
  | GoStmt call
  | DeferStmt call
  | AssignStmt "expr list" "expr list"
  | OtherNode "node list"

fun call_Fun :: "call \<Rightarrow> expr" where
  "call_Fun (Call f lp args) = f"

fun call_Lparen :: "call \<Rightarrow> token_Pos" where
  "call_Lparen (Call f lp args) = lp"

fun call_Args :: "call \<Rightarrow> expr list" where
  "call_Args (Call f lp args) = args"

fun expr_Pos :: "expr \<Rightarrow> token_Pos"
  and call_Pos :: "call \<Rightarrow> token_Pos" where
  "expr_Pos (Ident p n) = p"
| "expr_Pos (SelectorExpr x p n) = expr_Pos x"
| "expr_Pos (CallExpr c) = call_Pos c"
| "expr_Pos (TypeAssertExpr x t) = expr_Pos x"
| "expr_Pos (OtherExpr p ns) = p"
| "call_Pos (Call f lp args) = expr_Pos f"

text \<open>Modelled from the spec: \<^verbatim>\<open>walkThroughEmbeddedInterfaces\<close> is defined in another file
  of the package. A \<^verbatim>\<open>types.Selection\<close> is represented by what that helper returns on it:
  the interface types along the resolution chain that declare the method, when the
  selection resolved through an interface, and nothing (\<^verbatim>\<open>ok\<close> false) otherwise.\<close>

datatype selection = Selection "gtype list option"

fun walkThroughEmbeddedInterfaces :: "selection \<Rightarrow> gtype list option" where
  "walkThroughEmbeddedInterfaces (Selection r) = r"

text \<open>\<^verbatim>\<open>types.Info\<close>: the maps \<^verbatim>\<open>Types\<close> (the \<^verbatim>\<open>Type\<close> of the entry, nil when there is
  none), \<^verbatim>\<open>Uses\<close> and \<^verbatim>\<open>Selections\<close>, and the methods \<^verbatim>\<open>ObjectOf\<close> and \<^verbatim>\<open>TypeOf\<close>.
  Identifiers are keyed as \<^term>\<open>Ident p n\<close>.\<close>

record TypesInfo =
  Types :: "expr \<Rightarrow> gtype option"
  Uses :: "expr \<Rightarrow> object option"
  Selections :: "expr \<Rightarrow> selection option"
  ObjectOf :: "expr \<Rightarrow> object option"
  TypeOf :: "expr \<Rightarrow> gtype option"

text \<open>\<^verbatim>\<open>ast.File\<close>: the comment groups (each a list of comment texts) and the tree.\<close>

record ast_File =
  Comments :: "string list list"
  Decls :: "node list"

text \<open>\<^verbatim>\<open>packages.Package\<close>. \<open>Fset\<close> is \<^verbatim>\<open>pkg.Fset.Position\<close>, \<open>Info\<close> is the field
  \<^verbatim>\<open>TypesInfo\<close>. \<open>Implements_error\<close> is
  \<^verbatim>\<open>types.Implements(t, errorType)\<close>, the answer of the type checker for each type.\<close>

record package =
  ID :: string
  Errors :: "string list"
  Syntax :: "ast_File list"
  Fset :: "token_Pos \<Rightarrow> Position"
  Info :: TypesInfo
  Implements_error :: "gtype \<Rightarrow> bool"

subsection \<open>Exclusions, Checker, visitor\<close>

record Exclusions =
  Packages :: "string list"
  Symbols :: "string list"
  TestFiles :: bool
  GeneratedFiles :: bool
  BlankAssignments :: bool
  TypeAssertions :: bool

record Checker =
  Exclusions :: Exclusions
  Tags :: "string list"
  Verbose :: bool

record visitor =
  pkg :: package
  ignore :: "string \<rightharpoonup> regexp"
  blank :: bool
  asserts :: bool
  lines :: "string \<rightharpoonup> string list"
  exclude :: "string \<Rightarrow> bool"
  go111module :: bool
  errors :: "UncheckedError list"

text \<open>The files on disk, as \<^verbatim>\<open>readfile\<close> sees them: the lines of a file that opens.\<close>

type_synonym fsys = "string \<Rightarrow> string list option"

definition readfile :: "fsys \<Rightarrow> string \<Rightarrow> string list" where
  "readfile fs filename = (case fs filename of None \<Rightarrow> [] | Some ls \<Rightarrow> ls)"

subsection \<open>strings.TrimSpace, strings.LastIndex\<close>

text \<open>The UTF-8 encodings of the runes for which \<^verbatim>\<open>unicode.IsSpace\<close> holds: the six ASCII
  ones, U+0085, U+00A0, U+1680, U+2000 to U+200A, U+2028, U+2029, U+202F, U+205F, U+3000.\<close>

definition spaceRunes :: "string list" where
  "spaceRunes =
     [[CHR 0x09], [CHR 0x0A], [CHR 0x0B], [CHR 0x0C], [CHR 0x0D], [CHR 0x20],
      [CHR 0xC2, CHR 0x85], [CHR 0xC2, CHR 0xA0], [CHR 0xE1, CHR 0x9A, CHR 0x80],
      [CHR 0xE2, CHR 0x80, CHR 0x80], [CHR 0xE2, CHR 0x80, CHR 0x81],
      [CHR 0xE2, CHR 0x80, CHR 0x82], [CHR 0xE2, CHR 0x80, CHR 0x83],
      [CHR 0xE2, CHR 0x80, CHR 0x84], [CHR 0xE2, CHR 0x80, CHR 0x85],
      [CHR 0xE2, CHR 0x80, CHR 0x86], [CHR 0xE2, CHR 0x80, CHR 0x87],
      [CHR 0xE2, CHR 0x80, CHR 0x88], [CHR 0xE2, CHR 0x80, CHR 0x89],
      [CHR 0xE2, CHR 0x80, CHR 0x8A], [CHR 0xE2, CHR 0x80, CHR 0xA8],
      [CHR 0xE2, CHR 0x80, CHR 0xA9], [CHR 0xE2, CHR 0x80, CHR 0xAF],
      [CHR 0xE2, CHR 0x81, CHR 0x9F], [CHR 0xE3, CHR 0x80, CHR 0x80]]"

definition leadingSpace :: "string \<Rightarrow> nat" where
  "leadingSpace s = (case find (\<lambda>r. take (length r) s = r) spaceRunes of
                      None \<Rightarrow> 0 | Some r \<Rightarrow> length r)"

definition trailingSpace :: "string \<Rightarrow> nat" where
  "trailingSpace s = (case find (\<lambda>r. length r \<le> length s \<and> drop (length s - length r) s = r) spaceRunes of
                       None \<Rightarrow> 0 | Some r \<Rightarrow> length r)"

function trimLeft :: "string \<Rightarrow> string" where
  "trimLeft s = (if leadingSpace s = 0 \<or> length s < leadingSpace s then s
                 else trimLeft (drop (leadingSpace s) s))"
  by pat_completeness auto
termination
  by (relation "measure length") auto

function trimRight :: "string \<Rightarrow> string" where
  "trimRight s = (if trailingSpace s = 0 \<or> length s < trailingSpace s then s
                  else trimRight (take (length s - trailingSpace s) s))"
  by pat_completeness auto
termination
  by (relation "measure length") auto

declare trimLeft.simps [simp del] trimRight.simps [simp del]

definition TrimSpace :: "string \<Rightarrow> string" where
  "TrimSpace s = trimRight (trimLeft s)"

text \<open>\<^verbatim>\<open>strings.LastIndex(s, sub)\<close>: the largest index at which \<open>sub\<close> starts in \<open>s\<close>, or -1.\<close>

definition LastIndex :: "string \<Rightarrow> string \<Rightarrow> int" where
  "LastIndex s sub =
     (case filter (\<lambda>i. take (length sub) (drop i s) = sub) (rev [0..<Suc (length s)]) of
        [] \<Rightarrow> - 1
      | i # _ \<Rightarrow> int i)"

definition nonVendoredPkgPath :: "string \<Rightarrow> string \<times> bool" where
  "nonVendoredPkgPath pkgPath =
     (let lastVendorIndex = LastIndex pkgPath ''/vendor/'' in
      if lastVendorIndex = - 1 then (pkgPath, False)
      else (drop (nat (lastVendorIndex + int (length ''/vendor/''))) pkgPath, True))"

subsection \<open>The visitor's queries\<close>

definition isErrorType :: "visitor \<Rightarrow> gtype \<Rightarrow> bool" where
  "isErrorType v t = Implements_error (pkg v) t"

definition selectorAndFunc :: "visitor \<Rightarrow> call \<Rightarrow> (expr \<times> object) option" where
  "selectorAndFunc v c =
     (case call_Fun c of
        SelectorExpr x p n \<Rightarrow>
          (case ObjectOf (Info (pkg v)) (Ident p n) of
             Some (Func full name pk) \<Rightarrow> Some (SelectorExpr x p n, Func full name pk)
           | _ \<Rightarrow> None)
      | _ \<Rightarrow> None)"

fun Func_FullName :: "object \<Rightarrow> string" where
  "Func_FullName (Func full name pk) = full"
| "Func_FullName (Var n pk) = n"
| "Func_FullName (Builtin n) = n"
| "Func_FullName (OtherObject n pk) = n"

fun object_Name :: "object \<Rightarrow> string" where
  "object_Name (Func full name pk) = name"
| "object_Name (Var n pk) = n"
| "object_Name (Builtin n) = n"
| "object_Name (OtherObject n pk) = n"

definition fullName :: "visitor \<Rightarrow> call \<Rightarrow> string" where
  "fullName v c =
     (case selectorAndFunc v c of
        None \<Rightarrow> []
      | Some (sel, fn) \<Rightarrow> Func_FullName fn)"

definition namesForExcludeCheck :: "visitor \<Rightarrow> call \<Rightarrow> string list" where
  "namesForExcludeCheck v c =
     (case selectorAndFunc v c of
        None \<Rightarrow> []
      | Some (sel, fn) \<Rightarrow>
          (let name = fullName v c in
           if name = [] then []
           else (case Selections (Info (pkg v)) sel of
                   None \<Rightarrow> [name]
                 | Some selection \<Rightarrow>
                     (case walkThroughEmbeddedInterfaces selection of
                        None \<Rightarrow> [name]
                      | Some ts \<Rightarrow>
                          map (\<lambda>t. ''('' @ type_String t @ '').'' @ object_Name fn) ts))))"

definition argName :: "visitor \<Rightarrow> expr \<Rightarrow> string" where
  "argName v e =
     (let special =
        (case e of
           SelectorExpr x p n \<Rightarrow>
             (case ObjectOf (Info (pkg v)) (Ident p n) of
                Some (Var vn (Some pk)) \<Rightarrow>
                  if pkg_Name pk = ''os'' \<and> (vn = ''Stderr'' \<or> vn = ''Stdout'')
                  then Some (''os.'' @ vn) else None
              | _ \<Rightarrow> None)
         | _ \<Rightarrow> None)
      in case special of
           Some s \<Rightarrow> s
         | None \<Rightarrow> (case TypeOf (Info (pkg v)) e of None \<Rightarrow> [] | Some t \<Rightarrow> type_String t))"

fun excludeNames :: "visitor \<Rightarrow> string \<Rightarrow> string list \<Rightarrow> bool" where
  "excludeNames v arg0 [] = False"
| "excludeNames v arg0 (name # names) =
     (if exclude v name then True
      else if arg0 \<noteq> [] \<and> exclude v (name @ ''('' @ arg0 @ '')'') then True
      else excludeNames v arg0 names)"

definition excludeCall :: "visitor \<Rightarrow> call \<Rightarrow> bool" where
  "excludeCall v c =
     (let arg0 = (case call_Args c of [] \<Rightarrow> [] | a # _ \<Rightarrow> argName v a)
      in excludeNames v arg0 (namesForExcludeCheck v c))"

definition ignoreCall :: "visitor \<Rightarrow> call \<Rightarrow> bool" where
  "ignoreCall v c =
     (if excludeCall v c then True
      else
        (case (case call_Fun c of
                 Ident p n \<Rightarrow> Some (p, n)
               | SelectorExpr x p n \<Rightarrow> Some (p, n)
               | _ \<Rightarrow> None) of
           None \<Rightarrow> False
         | Some (p, n) \<Rightarrow>
             if (case ignore v [] of Some re \<Rightarrow> MatchString re n | None \<Rightarrow> False) then True
             else
               (case Uses (Info (pkg v)) (Ident p n) of
                  None \<Rightarrow> False
                | Some obj \<Rightarrow>
                    (case object_Pkg obj of
                       None \<Rightarrow> False
                     | Some pk \<Rightarrow>
                         (case ignore v (pkg_Path pk) of
                            Some re \<Rightarrow> MatchString re n
                          | None \<Rightarrow>
                              if \<not> go111module v then
                                (case nonVendoredPkgPath (pkg_Path pk) of
                                   (nonVendoredPkg, ok) \<Rightarrow>
                                     if ok then
                                       (case ignore v nonVendoredPkg of
                                          Some re \<Rightarrow> MatchString re n
                                        | None \<Rightarrow> False)
                                     else False)
                              else False)))))"

definition errorsByArg :: "visitor \<Rightarrow> call \<Rightarrow> bool list" where
  "errorsByArg v c =
     (case Types (Info (pkg v)) (CallExpr c) of
        Some (Named n) \<Rightarrow> [isErrorType v (Named n)]
      | Some (Pointer t) \<Rightarrow> [isErrorType v (Pointer t)]
      | Some (Tuple ts) \<Rightarrow>
          map (\<lambda>et. case et of
                      Named n \<Rightarrow> isErrorType v et
                    | Pointer t \<Rightarrow> isErrorType v et
                    | _ \<Rightarrow> False) ts
      | _ \<Rightarrow> [False])"

definition isRecover :: "visitor \<Rightarrow> call \<Rightarrow> bool" where
  "isRecover v c =
     (case call_Fun c of
        Ident p n \<Rightarrow>
          (case Uses (Info (pkg v)) (Ident p n) of
             Some (Builtin b) \<Rightarrow> n = ''recover''
           | _ \<Rightarrow> False)
      | _ \<Rightarrow> False)"

definition callReturnsError :: "visitor \<Rightarrow> call \<Rightarrow> bool" where
  "callReturnsError v c = (if isRecover v c then True else True \<in> set (errorsByArg v c))"

subsection \<open>Recording a finding\<close>

text \<open>\<^verbatim>\<open>addErrorAtPosition\<close>. The lines of the file come from the visitor's cache, filled by
  \<^verbatim>\<open>readfile\<close> at the first use. \<^verbatim>\<open>lines[pos.Line-1]\<close> with a line number below 1 is an index
  out of range; \<open>call\<close> is \<^term>\<open>None\<close> where the source passes nil.\<close>

definition addErrorAtPosition ::
  "fsys \<Rightarrow> visitor \<Rightarrow> token_Pos \<Rightarrow> call option \<Rightarrow> visitor option" where
  "addErrorAtPosition fs v position c =
     (let pos = Fset (pkg v) position;
          ls = (case lines v (Filename pos) of
                  Some l \<Rightarrow> l
                | None \<Rightarrow> readfile fs (Filename pos));
          v1 = (case lines v (Filename pos) of
                  Some l \<Rightarrow> v
                | None \<Rightarrow> v\<lparr>lines := (lines v)(Filename pos \<mapsto> ls)\<rparr>);
          name = (case c of None \<Rightarrow> [] | Some cl \<Rightarrow> fullName v cl)
      in if Line pos - 1 < int (length ls) then
           (if Line pos - 1 < 0 then None
            else Some (v1\<lparr>errors := errors v1 @
                   [\<lparr>Pos = pos, LineText = TrimSpace (ls ! nat (Line pos - 1)), FuncName = name\<rparr>]\<rparr>))
         else Some (v1\<lparr>errors := errors v1 @ [\<lparr>Pos = pos, LineText = ''??'', FuncName = name\<rparr>]\<rparr>))"

subsection \<open>Visit\<close>

text \<open>A \<^verbatim>\<open>for i := 0; i < n; i++\<close> loop over a state, stopped by a panic of its body.\<close>

fun forLoop :: "nat list \<Rightarrow> (nat \<Rightarrow> 's \<Rightarrow> 's option) \<Rightarrow> 's \<Rightarrow> 's option" where
  "forLoop [] body s = Some s"
| "forLoop (i # is) body s =
     (case body i s of None \<Rightarrow> None | Some s' \<Rightarrow> forLoop is body s')"

text \<open>The body of the loop over the targets of an assignment with one right-hand side that
  is a call. \<^verbatim>\<open>isError[i]\<close> is read only when the target is the blank identifier and the
  call is not \<^verbatim>\<open>recover()\<close>; it panics when the call has fewer results than targets.\<close>

definition assignCallBody ::
  "fsys \<Rightarrow> call \<Rightarrow> bool list \<Rightarrow> expr list \<Rightarrow> nat \<Rightarrow> visitor \<Rightarrow> visitor option" where
  "assignCallBody fs c isError lhs i v =
     (case lhs ! i of
        Ident p n \<Rightarrow>
          if n = ''_'' then
            (if isRecover v c then addErrorAtPosition fs v p (Some c)
             else if i < length isError then
               (if isError ! i then addErrorAtPosition fs v p (Some c) else Some v)
             else None)
          else Some v
      | _ \<Rightarrow> Some v)"

text \<open>The body of the loop over the targets of an assignment with several right-hand
  sides. \<^verbatim>\<open>stmt.Rhs[i]\<close> panics when there are fewer right-hand sides than targets.\<close>

definition assignMultiBody ::
  "fsys \<Rightarrow> expr list \<Rightarrow> expr list \<Rightarrow> nat \<Rightarrow> visitor \<Rightarrow> visitor option" where
  "assignMultiBody fs lhs rhs i v =
     (case lhs ! i of
        Ident p n \<Rightarrow>
          if i < length rhs then
            (case rhs ! i of
               CallExpr c \<Rightarrow>
                 if \<not> blank v then Some v
                 else if ignoreCall v c then Some v
                 else if n = ''_'' \<and> callReturnsError v c
                   then addErrorAtPosition fs v p (Some c)
                 else Some v
             | TypeAssertExpr x ty \<Rightarrow>
                 if \<not> asserts v then Some v
                 else if ty = None then Some v
                 else addErrorAtPosition fs v p None
             | _ \<Rightarrow> Some v)
          else None
      | _ \<Rightarrow> Some v)"

definition Visit :: "fsys \<Rightarrow> visitor \<Rightarrow> node \<Rightarrow> visitor option" where
  "Visit fs v nd =
     (case nd of
        ExprStmt x \<Rightarrow>
          (case x of
             CallExpr c \<Rightarrow>
               if \<not> ignoreCall v c \<and> callReturnsError v c
               then addErrorAtPosition fs v (call_Lparen c) (Some c)
               else Some v
           | _ \<Rightarrow> Some v)
      | GoStmt c \<Rightarrow>
          if \<not> ignoreCall v c \<and> callReturnsError v c
          then addErrorAtPosition fs v (call_Lparen c) (Some c)
          else Some v
      | DeferStmt c \<Rightarrow>
          if \<not> ignoreCall v c \<and> callReturnsError v c
          then addErrorAtPosition fs v (call_Lparen c) (Some c)
          else Some v
      | AssignStmt lhs rhs \<Rightarrow>
          if length rhs = 1 then
            (case rhs ! 0 of
               CallExpr c \<Rightarrow>
                 if \<not> blank v then Some v
                 else if ignoreCall v c then Some v
                 else forLoop [0..<length lhs] (assignCallBody fs c (errorsByArg v c) lhs) v
             | TypeAssertExpr x ty \<Rightarrow>
                 if \<not> asserts v then Some v
                 else if ty = None then Some v
                 else if length lhs < 2 then addErrorAtPosition fs v (expr_Pos (rhs ! 0)) None
                 else
                   (case lhs ! 1 of
                      Ident p n \<Rightarrow>
                        if blank v \<and> n = ''_'' then addErrorAtPosition fs v p None else Some v
                    | _ \<Rightarrow> Some v)
             | _ \<Rightarrow> Some v)
          else forLoop [0..<length lhs] (assignMultiBody fs lhs rhs) v
      | _ \<Rightarrow> Some v)"

subsection \<open>ast.Walk\<close>

text \<open>\<^verbatim>\<open>ast.Walk(v, node)\<close> calls \<^verbatim>\<open>v.Visit(node)\<close>, walks the children in order with the
  visitor that \<^verbatim>\<open>Visit\<close> returns (always \<^verbatim>\<open>v\<close> itself), and ends with \<^verbatim>\<open>v.Visit(nil)\<close>,
  which falls into the default branch and changes nothing.\<close>

fun WalkExpr :: "fsys \<Rightarrow> visitor \<Rightarrow> expr \<Rightarrow> visitor option"
  and WalkCall :: "fsys \<Rightarrow> visitor \<Rightarrow> call \<Rightarrow> visitor option"
  and WalkExprs :: "fsys \<Rightarrow> visitor \<Rightarrow> expr list \<Rightarrow> visitor option"
  and Walk :: "fsys \<Rightarrow> visitor \<Rightarrow> node \<Rightarrow> visitor option"
  and WalkNodes :: "fsys \<Rightarrow> visitor \<Rightarrow> node list \<Rightarrow> visitor option" where
  "WalkExpr fs v (Ident p n) = Visit fs v (Expr (Ident p n))"
| "WalkExpr fs v (SelectorExpr x p n) =
     (case Visit fs v (Expr (SelectorExpr x p n)) of
        None \<Rightarrow> None
      | Some v1 \<Rightarrow>
          (case WalkExpr fs v1 x of
             None \<Rightarrow> None
           | Some v2 \<Rightarrow> Visit fs v2 (Expr (Ident p n))))"
| "WalkExpr fs v (CallExpr c) =
     (case Visit fs v (Expr (CallExpr c)) of
        None \<Rightarrow> None
      | Some v1 \<Rightarrow> WalkCall fs v1 c)"
| "WalkExpr fs v (TypeAssertExpr x None) =
     (case Visit fs v (Expr (TypeAssertExpr x None)) of
        None \<Rightarrow> None
      | Some v1 \<Rightarrow> WalkExpr fs v1 x)"
| "WalkExpr fs v (TypeAssertExpr x (Some t)) =
     (case Visit fs v (Expr (TypeAssertExpr x (Some t))) of
        None \<Rightarrow> None
      | Some v1 \<Rightarrow>
          (case WalkExpr fs v1 x of
             None \<Rightarrow> None
           | Some v2 \<Rightarrow> WalkExpr fs v2 t))"
| "WalkExpr fs v (OtherExpr p ns) =
     (case Visit fs v (Expr (OtherExpr p ns)) of
        None \<Rightarrow> None
      | Some v1 \<Rightarrow> WalkNodes fs v1 ns)"
| "WalkCall fs v (Call f lp args) =
     (case WalkExpr fs v f of
        None \<Rightarrow> None
      | Some v1 \<Rightarrow> WalkExprs fs v1 args)"
| "WalkExprs fs v [] = Some v"
| "WalkExprs fs v (e # es) =
     (case WalkExpr fs v e of
        None \<Rightarrow> None
      | Some v1 \<Rightarrow> WalkExprs fs v1 es)"
| "Walk fs v (Expr e) = WalkExpr fs v e"
| "Walk fs v (ExprStmt x) =
     (case Visit fs v (ExprStmt x) of
        None \<Rightarrow> None
      | Some v1 \<Rightarrow> WalkExpr fs v1 x)"
| "Walk fs v (GoStmt c) =
     (case Visit fs v (GoStmt c) of
        None \<Rightarrow> None
      | Some v1 \<Rightarrow> WalkExpr fs v1 (CallExpr c))"
| "Walk fs v (DeferStmt c) =
     (case Visit fs v (DeferStmt c) of
        None \<Rightarrow> None
      | Some v1 \<Rightarrow> WalkExpr fs v1 (CallExpr c))"
| "Walk fs v (AssignStmt lhs rhs) =
     (case Visit fs v (AssignStmt lhs rhs) of
        None \<Rightarrow> None
      | Some v1 \<Rightarrow>
          (case WalkExprs fs v1 lhs of
             None \<Rightarrow> None
           | Some v2 \<Rightarrow> WalkExprs fs v2 rhs))"
| "Walk fs v (OtherNode ns) =
     (case Visit fs v (OtherNode ns) of
        None \<Rightarrow> None
      | Some v1 \<Rightarrow> WalkNodes fs v1 ns)"
| "WalkNodes fs v [] = Some v"
| "WalkNodes fs v (n # ns) =
     (case Walk fs v n of
        None \<Rightarrow> None
      | Some v1 \<Rightarrow> WalkNodes fs v1 ns)"

subsection \<open>The order of findings, sorting and compaction\<close>

text \<open>\<^verbatim>\<open>byName.Less\<close> on two findings.\<close>

definition Less :: "UncheckedError \<Rightarrow> UncheckedError \<Rightarrow> bool" where
  "Less ei ej =
     (if Filename (Pos ei) \<noteq> Filename (Pos ej) then Filename (Pos ei) < Filename (Pos ej)
      else if Line (Pos ei) \<noteq> Line (Pos ej) then Line (Pos ei) < Line (Pos ej)
      else if Column (Pos ei) \<noteq> Column (Pos ej) then Column (Pos ei) < Column (Pos ej)
      else LineText ei < LineText ej)"

text \<open>\<^verbatim>\<open>sort.Sort\<close> belongs to the standard library; \<^verbatim>\<open>CheckPackages\<close> below takes it as a
  parameter. All it promises is a rearrangement in ascending order of \<^verbatim>\<open>Less\<close>, not a
  stable one.\<close>

definition sorts_byName :: "(UncheckedError list \<Rightarrow> UncheckedError list) \<Rightarrow> bool" where
  "sorts_byName srt =
     (\<forall>xs. mset (srt xs) = mset xs \<and> sorted_wrt (\<lambda>a b. \<not> Less b a) (srt xs))"

text \<open>The insertion sort that \<^verbatim>\<open>sort.Sort\<close> runs on a slice of at most six elements
  (\<^verbatim>\<open>for i := a+1; i < b; i++ { for j := i; j > a && Less(j, j-1); j-- { Swap(j, j-1) } }\<close>).
  \<open>insertLeft x rs\<close> moves \<open>x\<close> to the left through the sorted prefix, given back to front.\<close>

fun insertLeft :: "UncheckedError \<Rightarrow> UncheckedError list \<Rightarrow> UncheckedError list" where
  "insertLeft x [] = [x]"
| "insertLeft x (y # rs) = (if Less x y then y # insertLeft x rs else x # y # rs)"

definition insertionSort :: "UncheckedError list \<Rightarrow> UncheckedError list" where
  "insertionSort xs = rev (foldl (\<lambda>rs x. insertLeft x rs) [] xs)"

text \<open>The compaction in place: \<^verbatim>\<open>uniq := u.Errors[:0]\<close> shares the array of \<^verbatim>\<open>u.Errors\<close>,
  so \<^verbatim>\<open>append(uniq, err)\<close> writes at index \<open>k\<close> of the array that the loop is reading.\<close>

function uniqLoop :: "'a list \<Rightarrow> nat \<Rightarrow> nat \<Rightarrow> 'a list" where
  "uniqLoop arr k i =
     (if i < length arr then
        (if i = 0 \<or> arr ! i \<noteq> arr ! (i - 1)
         then uniqLoop (arr[k := arr ! i]) (Suc k) (Suc i)
         else uniqLoop arr k (Suc i))
      else take k arr)"
  by pat_completeness auto
termination
  by (relation "measure (\<lambda>(arr, k, i). length arr - i)") auto

declare uniqLoop.simps [simp del]

subsection \<open>CheckPackages\<close>

datatype err =
    ErrNoGoFiles
  | LoaderError string
  | ErrorsWhileLoading string "string list"
  | UncheckedErrors "UncheckedError list"

text \<open>What a scan takes from outside: the loader behind \<^verbatim>\<open>loadPackages\<close> (given
  \<^verbatim>\<open>cfg.Tests\<close>, the build tags and the paths), the output of \<^verbatim>\<open>go env GOMOD\<close> (\<^term>\<open>None\<close>
  when the command fails), the files on disk, the order in which the workers append the
  findings of the packages they took from the queue, and \<^verbatim>\<open>sort.Sort\<close>.\<close>

record env =
  loadPackages :: "bool \<Rightarrow> string list \<Rightarrow> string list \<Rightarrow> err + package list"
  goEnvGOMOD :: "string option"
  disk :: fsys
  schedule :: "package list \<Rightarrow> package list"
  sort_Sort :: "UncheckedError list \<Rightarrow> UncheckedError list"

text \<open>\<^verbatim>\<open>Checker.load\<close>. The build flags are \<^verbatim>\<open>fmtTags(c.Tags)\<close>, a function of another file of
  the package; the loader is given the tags themselves. What \<^verbatim>\<open>logf\<close> prints when
  \<^verbatim>\<open>Verbose\<close> is set is not part of the model.\<close>

definition load :: "Checker \<Rightarrow> env \<Rightarrow> string list \<Rightarrow> err + package list" where
  "load c e paths = loadPackages e (\<not> TestFiles (Exclusions c)) (Tags c) paths"

fun commentsMatch :: "string list \<Rightarrow> bool" where
  "commentsMatch [] = False"
| "commentsMatch (comment # cs) =
     (if MatchString generatedCodeRegexp comment then True else commentsMatch cs)"

fun groupsMatch :: "string list list \<Rightarrow> bool" where
  "groupsMatch [] = False"
| "groupsMatch (cg # cgs) = (if commentsMatch cg then True else groupsMatch cgs)"

definition shouldSkipFile :: "Checker \<Rightarrow> ast_File \<Rightarrow> bool" where
  "shouldSkipFile c f =
     (if \<not> GeneratedFiles (Exclusions c) then False else groupsMatch (Comments f))"

text \<open>The first loop of \<^verbatim>\<open>CheckPackages\<close>: a package with errors ends the scan.\<close>

fun enqueue :: "package list \<Rightarrow> package list \<Rightarrow> err + package list" where
  "enqueue work [] = Inr work"
| "enqueue work (p # ps) =
     (if length (Errors p) > 0 then Inl (ErrorsWhileLoading (ID p) (Errors p))
      else enqueue (work @ [p]) ps)"

fun ignoreMap :: "bool \<Rightarrow> string list \<Rightarrow> (string \<rightharpoonup> regexp) \<Rightarrow> (string \<rightharpoonup> regexp)" where
  "ignoreMap g [] m = m"
| "ignoreMap g (p # ps) m =
     (case nonVendoredPkgPath p of
        (nonVendoredPkg, ok) \<Rightarrow>
          if g \<and> ok then ignoreMap g ps (m(nonVendoredPkg \<mapsto> dotStar))
          else ignoreMap g ps (m(p \<mapsto> dotStar)))"

definition newVisitor ::
  "Checker \<Rightarrow> (string \<rightharpoonup> regexp) \<Rightarrow> (string \<Rightarrow> bool) \<Rightarrow> bool \<Rightarrow> package \<Rightarrow> visitor" where
  "newVisitor c ign excludedSymbols g p =
     \<lparr> pkg = p,
       ignore = ign,
       blank = (\<not> BlankAssignments (Exclusions c)),
       asserts = (\<not> TypeAssertions (Exclusions c)),
       lines = Map.empty,
       exclude = excludedSymbols,
       go111module = g,
       errors = [] \<rparr>"

text \<open>The loop of a worker over the files of one package. \<^verbatim>\<open>ast.Walk(v, astFile)\<close> visits
  the file node, its doc comment and the package name, where \<^verbatim>\<open>Visit\<close> changes nothing, and
  then the declarations.\<close>

fun checkFiles :: "Checker \<Rightarrow> fsys \<Rightarrow> visitor \<Rightarrow> ast_File list \<Rightarrow> visitor option" where
  "checkFiles c fs v [] = Some v"
| "checkFiles c fs v (astFile # rest) =
     (if shouldSkipFile c astFile then checkFiles c fs v rest
      else (case WalkNodes fs v (Decls astFile) of
              None \<Rightarrow> None
            | Some v1 \<Rightarrow> checkFiles c fs v1 rest))"

definition checkPackage ::
  "Checker \<Rightarrow> fsys \<Rightarrow> (string \<rightharpoonup> regexp) \<Rightarrow> (string \<Rightarrow> bool) \<Rightarrow> bool \<Rightarrow> package
     \<Rightarrow> UncheckedError list option" where
  "checkPackage c fs ign excludedSymbols g p =
     map_option errors (checkFiles c fs (newVisitor c ign excludedSymbols g p) (Syntax p))"

text \<open>\<^verbatim>\<open>u.Append(v.errors...)\<close>, once for each package, in the order the workers finish;
  a worker that panicked ends the program.\<close>

fun appendAll :: "UncheckedError list \<Rightarrow> UncheckedError list option list
    \<Rightarrow> UncheckedError list option" where
  "appendAll u [] = Some u"
| "appendAll u (None # rs) = None"
| "appendAll u (Some es # rs) = appendAll (u @ es) rs"

definition finalize ::
  "(UncheckedError list \<Rightarrow> UncheckedError list) \<Rightarrow> UncheckedError list \<Rightarrow> err option" where
  "finalize srt u =
     (if length u > 0 then Some (UncheckedErrors (uniqLoop (srt u) 0 0)) else None)"

text \<open>The result of a scan: the packages a visitor was run on, and what \<^verbatim>\<open>CheckPackages\<close>
  returns (\<^term>\<open>None\<close> for a panic, \<^term>\<open>Some None\<close> for nil).\<close>

record scan =
  checked :: "string list"
  outcome :: "err option option"

definition CheckPackages :: "Checker \<Rightarrow> env \<Rightarrow> string list \<Rightarrow> scan" where
  "CheckPackages c e paths =
     (case load c e paths of
        Inl er \<Rightarrow> \<lparr> checked = [], outcome = Some (Some er) \<rparr>
      | Inr pkgs \<Rightarrow>
          (case enqueue [] pkgs of
             Inl er \<Rightarrow> \<lparr> checked = [], outcome = Some (Some er) \<rparr>
           | Inr work \<Rightarrow>
               (let g = (case goEnvGOMOD e of None \<Rightarrow> False | Some gomod \<Rightarrow> TrimSpace gomod \<noteq> []);
                    ign = ignoreMap g (Packages (Exclusions c)) Map.empty;
                    excludedSymbols = (\<lambda>sym. sym \<in> set (Symbols (Exclusions c)));
                    order = schedule e work;
                    results = map (checkPackage c (disk e) ign excludedSymbols g) order
                in \<lparr> checked = map ID order,
                     outcome = (case appendAll [] results of
                                  None \<Rightarrow> None
                                | Some u \<Rightarrow> Some (finalize (sort_Sort e) u)) \<rparr>)))"

subsection \<open>Notions used in the statements\<close>


text \<open>The text that \<^verbatim>\<open>addErrorAtPosition\<close> records for a position, the finding it appends,
  and the visitor after the file of the position entered the cache.\<close>

definition lineAt :: "fsys \<Rightarrow> visitor \<Rightarrow> Position \<Rightarrow> string" where
  "lineAt fs v pos =
     (let ls = (case lines v (Filename pos) of
                  Some l \<Rightarrow> l
                | None \<Rightarrow> readfile fs (Filename pos))
      in if Line pos - 1 < int (length ls) then TrimSpace (ls ! nat (Line pos - 1)) else ''??'')"

definition finding :: "fsys \<Rightarrow> visitor \<Rightarrow> token_Pos \<Rightarrow> call option \<Rightarrow> UncheckedError" where
  "finding fs v position c =
     \<lparr> Pos = Fset (pkg v) position,
       LineText = lineAt fs v (Fset (pkg v) position),
       FuncName = (case c of None \<Rightarrow> [] | Some cl \<Rightarrow> fullName v cl) \<rparr>"

definition cached :: "fsys \<Rightarrow> visitor \<Rightarrow> string \<Rightarrow> visitor" where
  "cached fs v filename =
     (case lines v filename of
        Some l \<Rightarrow> v
      | None \<Rightarrow> v\<lparr>lines := (lines v)(filename \<mapsto> readfile fs filename)\<rparr>)"

subsection \<open>A small package for the examples\<close>

text \<open>The file \<^verbatim>\<open>a.go\<close> below, with the position of a token at line \<open>l\<close> and column \<open>c\<close>
  numbered \<open>100 * (l - 1) + c\<close>, and the objects and types the type checker records for it.
  The position 0 is \<^verbatim>\<open>token.NoPos\<close>, which a file set maps to the zero \<^verbatim>\<open>Position\<close>.\<close>

definition demoDisk :: fsys where
  "demoDisk = map_of
     [(''a.go'',
       [''package a'',
        ''func work(fh *os.File, x interface{}) {'',
        [CHR 0x09] @ ''fh.Close()'',
        [CHR 0x09] @ ''os.Getpid()'',
        [CHR 0x09] @ ''recover()'',
        [CHR 0x09] @ ''v, _ := f()'',
        [CHR 0x09] @ ''n := x.(int)'',
        [CHR 0x09] @ ''m, ok := x.(int)'',
        [CHR 0x09] @ ''a, b := x.(T), y.(U)'',
        [CHR 0x09] @ ''c, d, e := x.(T), z, y.(U)'',
        ''}''])]"

definition closeCall :: call where
  "closeCall = Call (SelectorExpr (Ident 202 ''fh'') 205 ''Close'') 210 []"

definition getpidCall :: call where
  "getpidCall = Call (SelectorExpr (Ident 302 ''os'') 305 ''Getpid'') 311 []"

definition recoverCall :: call where
  "recoverCall = Call (Ident 402 ''recover'') 409 []"

definition fCall :: call where
  "fCall = Call (Ident 510 ''f'') 511 []"

definition flushCall :: call where
  "flushCall = Call (SelectorExpr (Ident 214 ''w'') 216 ''Flush'') 221 []"

definition demoObjects :: "expr \<Rightarrow> object option" where
  "demoObjects = map_of
     [(Ident 205 ''Close'', Func ''(*os.File).Close'' ''Close'' (Some \<lparr>pkg_Name = ''os'', pkg_Path = ''os''\<rparr>)),
      (Ident 305 ''Getpid'', Func ''os.Getpid'' ''Getpid'' (Some \<lparr>pkg_Name = ''os'', pkg_Path = ''os''\<rparr>)),
      (Ident 402 ''recover'', Builtin ''recover''),
      (Ident 510 ''f'', Func ''a.f'' ''f'' (Some \<lparr>pkg_Name = ''a'', pkg_Path = ''a''\<rparr>)),
      (Ident 216 ''Flush'',
       Func ''(*bufio.Writer).Flush'' ''Flush'' (Some \<lparr>pkg_Name = ''bufio'', pkg_Path = ''bufio''\<rparr>))]"

definition demoInfo :: TypesInfo where
  "demoInfo =
     \<lparr> Types = map_of
         [(CallExpr closeCall, Named ''error''),
          (CallExpr getpidCall, OtherType ''int''),
          (CallExpr recoverCall, OtherType ''interface{}''),
          (CallExpr fCall, Tuple [OtherType ''int'', Named ''error'']),
          (CallExpr flushCall, Named ''error'')],
       Uses = demoObjects,
       Selections = map_of
         [(SelectorExpr (Ident 202 ''fh'') 205 ''Close'', Selection None),
          (SelectorExpr (Ident 214 ''w'') 216 ''Flush'', Selection None)],
       ObjectOf = demoObjects,
       TypeOf = Map.empty \<rparr>"

definition demoFset :: "token_Pos \<Rightarrow> Position" where
  "demoFset p =
     (if p = 0 then \<lparr> Filename = [], Offset = 0, Line = 0, Column = 0 \<rparr>
      else \<lparr> Filename = ''a.go'', Offset = int p, Line = int (p div 100) + 1,
             Column = int (p mod 100) \<rparr>)"

definition demoFile :: ast_File where
  "demoFile = \<lparr> Comments = [], Decls = [] \<rparr>"

definition demoPkg :: package where
  "demoPkg =
     \<lparr> ID = ''a'', Errors = [], Syntax = [demoFile], Fset = demoFset, Info = demoInfo,
       Implements_error = (\<lambda>t. t = Named ''error'') \<rparr>"

definition demoChecker :: Checker where
  "demoChecker =
     \<lparr> Exclusions = \<lparr> Packages = [], Symbols = [], TestFiles = False, GeneratedFiles = False,
                      BlankAssignments = False, TypeAssertions = False \<rparr>,
       Tags = [], Verbose = False \<rparr>"

definition demoVisitor :: visitor where
  "demoVisitor = newVisitor demoChecker Map.empty (\<lambda>sym. False) False demoPkg"

subsection \<open>More notions for the statements, more examples\<close>

text \<open>The blank identifier; the targets of an assignment that are identifiers have a
  position with a line number (as every identifier of a parsed file has); a visitor that
  differs from another one at most in its findings and in cached files.\<close>

definition isBlank :: "expr \<Rightarrow> bool" where
  "isBlank e = (case e of Ident p n \<Rightarrow> n = ''_'' | _ \<Rightarrow> False)"

definition targetHasLine :: "visitor \<Rightarrow> expr \<Rightarrow> bool" where
  "targetHasLine v e = (case e of Ident q m \<Rightarrow> 0 < Line (Fset (pkg v) q) | _ \<Rightarrow> True)"

definition targetsHaveLines :: "visitor \<Rightarrow> expr list \<Rightarrow> bool" where
  "targetsHaveLines v lhs = list_all (targetHasLine v) lhs"

definition sameView :: "fsys \<Rightarrow> visitor \<Rightarrow> visitor \<Rightarrow> bool" where
  "sameView fs v s =
     (pkg s = pkg v \<and> blank s = blank v \<and> asserts s = asserts v \<and> ignore s = ignore v
      \<and> exclude s = exclude v \<and> go111module s = go111module v
      \<and> (\<forall>pos. lineAt fs s pos = lineAt fs v pos))"

text \<open>The statements of lines 6 to 10 of \<^verbatim>\<open>a.go\<close>, and visitors of a checker that excludes
  type assertions or blank assignments.\<close>

definition assignFStmt :: node where
  "assignFStmt = AssignStmt [Ident 502 ''v'', Ident 505 ''_''] [CallExpr fCall]"

definition assertStmt :: node where
  "assertStmt = AssignStmt [Ident 602 ''n''] [TypeAssertExpr (Ident 607 ''x'') (Some (Ident 610 ''int''))]"

definition assertOkStmt :: node where
  "assertOkStmt =
     AssignStmt [Ident 702 ''m'', Ident 705 ''ok'']
       [TypeAssertExpr (Ident 711 ''x'') (Some (Ident 714 ''int''))]"

definition multiAssertStmt :: node where
  "multiAssertStmt =
     AssignStmt [Ident 802 ''a'', Ident 805 ''b'']
       [TypeAssertExpr (Ident 810 ''x'') (Some (Ident 813 ''T'')),
        TypeAssertExpr (Ident 817 ''y'') (Some (Ident 820 ''U''))]"

definition tripleStmt :: node where
  "tripleStmt =
     AssignStmt [Ident 902 ''c'', Ident 905 ''d'', Ident 908 ''e'']
       [TypeAssertExpr (Ident 913 ''x'') (Some (Ident 916 ''T'')),
        Ident 920 ''z'',
        TypeAssertExpr (Ident 923 ''y'') (Some (Ident 926 ''U''))]"

definition noAssertsChecker :: Checker where
  "noAssertsChecker = demoChecker\<lparr>Exclusions := (Exclusions demoChecker)\<lparr>TypeAssertions := True\<rparr>\<rparr>"

definition noAssertsVisitor :: visitor where
  "noAssertsVisitor = newVisitor noAssertsChecker Map.empty (\<lambda>sym. False) False demoPkg"

definition noBlankChecker :: Checker where
  "noBlankChecker = demoChecker\<lparr>Exclusions := (Exclusions demoChecker)\<lparr>BlankAssignments := True\<rparr>\<rparr>"

definition noBlankVisitor :: visitor where
  "noBlankVisitor = newVisitor noBlankChecker Map.empty (\<lambda>sym. False) False demoPkg"

subsection \<open>The language of a regular expression\<close>

text \<open>The words a pattern stands for; \<open>matches\<close> is shown below to decide membership.\<close>

definition conc :: "string set \<Rightarrow> string set \<Rightarrow> string set" where
  "conc A B = {u @ w | u w. u \<in> A \<and> w \<in> B}"

inductive_set star :: "string set \<Rightarrow> string set" for A :: "string set" where
  star_empty: "[] \<in> star A"
| star_step: "u \<in> A \<Longrightarrow> w \<in> star A \<Longrightarrow> u @ w \<in> star A"

fun lang :: "rexp \<Rightarrow> string set" where
  "lang Zero = {}"
| "lang Eps = {[]}"
| "lang (Lit c) = {[c]}"
| "lang Dot = {[c] | c. c \<noteq> CHR 0x0A}"
| "lang AnyChar = {[c] | c. True}"
| "lang (Alt r s) = lang r \<union> lang s"
| "lang (Seq r s) = conc (lang r) (lang s)"
| "lang (Star r) = star (lang r)"

subsection \<open>Example files, packages and environments\<close>

text \<open>Two files with the statement \<^verbatim>\<open>fh.Close()\<close>, one marked as generated and one whose
  comment lacks the final clause; a package that failed to load, and the package that the
  loader reports for a directory without Go files; an environment whose loader returns the
  given packages, whose workers finish in queue order, and which sorts by insertion.\<close>

definition generatedFile :: ast_File where
  "generatedFile =
     \<lparr> Comments = [[''// Code generated by X. DO NOT EDIT.'']],
       Decls = [OtherNode [ExprStmt (CallExpr closeCall)]] \<rparr>"

definition halfMarkedFile :: ast_File where
  "halfMarkedFile =
     \<lparr> Comments = [[''// Code generated by X.'']],
       Decls = [OtherNode [ExprStmt (CallExpr closeCall)]] \<rparr>"

definition genChecker :: Checker where
  "genChecker = demoChecker\<lparr>Exclusions := (Exclusions demoChecker)\<lparr>GeneratedFiles := True\<rparr>\<rparr>"

definition brokenPkg :: package where
  "brokenPkg = demoPkg\<lparr> ID := ''b'', Errors := [''b.go:3:1: undefined: x''] \<rparr>"

definition noGoFilesPkg :: package where
  "noGoFilesPkg = demoPkg\<lparr> ID := ''empty'', Errors := [''no Go files in /src/empty''], Syntax := [] \<rparr>"

definition envOf :: "package list \<Rightarrow> env" where
  "envOf pkgs =
     \<lparr> loadPackages = (\<lambda>tests tags paths. Inr pkgs),
       goEnvGOMOD = Some ''/src/go.mod'',
       disk = demoDisk,
       schedule = (\<lambda>work. work),
       sort_Sort = insertionSort \<rparr>"

subsection \<open>Notions for the final list\<close>

text \<open>What \<^verbatim>\<open>byName.Less\<close> compares: file, line, column and line text. A schedule is fair when
  every package of the queue is taken by exactly one worker. The findings a scan reports.\<close>

definition key :: "UncheckedError \<Rightarrow> string \<times> int \<times> int \<times> string" where
  "key e = (Filename (Pos e), Line (Pos e), Column (Pos e), LineText e)"

definition fair :: "(package list \<Rightarrow> package list) \<Rightarrow> bool" where
  "fair sched = (\<forall>work. mset (sched work) = mset work)"

definition reported :: "scan \<Rightarrow> UncheckedError list" where
  "reported s = (case outcome s of Some (Some (UncheckedErrors ys)) \<Rightarrow> ys | _ \<Rightarrow> [])"

text \<open>A file whose positions a \<^verbatim>\<open>//line /src/gen/parser.y:42\<close> directive maps to line 42 of
  that file (without a column, so the column of every position is 0), holding
  \<^verbatim>\<open>fh.Close(); w.Flush()\<close>; the package of that file and its test variant, which share
  it; packages with one of the two statements each; the package \<open>a\<close> and its test variant,
  which share the file with \<^verbatim>\<open>fh.Close()\<close>; the findings expected.\<close>

definition yaccFset :: "token_Pos \<Rightarrow> Position" where
  "yaccFset p =
     (if p = 0 then \<lparr> Filename = [], Offset = 0, Line = 0, Column = 0 \<rparr>
      else \<lparr> Filename = ''/src/gen/parser.y'', Offset = int p, Line = 42, Column = 0 \<rparr>)"

definition closeFile :: ast_File where
  "closeFile = \<lparr> Comments = [], Decls = [OtherNode [ExprStmt (CallExpr closeCall)]] \<rparr>"

definition flushFile :: ast_File where
  "flushFile = \<lparr> Comments = [], Decls = [OtherNode [ExprStmt (CallExpr flushCall)]] \<rparr>"

definition recoverFile :: ast_File where
  "recoverFile = \<lparr> Comments = [], Decls = [OtherNode [ExprStmt (CallExpr recoverCall)]] \<rparr>"

definition yaccFile :: ast_File where
  "yaccFile =
     \<lparr> Comments = [[''//line /src/gen/parser.y:42'']],
       Decls = [OtherNode [ExprStmt (CallExpr closeCall), ExprStmt (CallExpr flushCall)]] \<rparr>"

definition yaccPkg :: package where
  "yaccPkg = demoPkg\<lparr> ID := ''y'', Syntax := [yaccFile], Fset := yaccFset \<rparr>"

definition yaccPkgTest :: package where
  "yaccPkgTest = demoPkg\<lparr> ID := ''y [y.test]'', Syntax := [yaccFile], Fset := yaccFset \<rparr>"

definition yaccPkgA :: package where
  "yaccPkgA = demoPkg\<lparr> ID := ''ya'', Syntax := [closeFile], Fset := yaccFset \<rparr>"

definition yaccPkgB :: package where
  "yaccPkgB = demoPkg\<lparr> ID := ''yb'', Syntax := [flushFile], Fset := yaccFset \<rparr>"

definition pkgA :: package where
  "pkgA = demoPkg\<lparr> Syntax := [closeFile] \<rparr>"

definition pkgATest :: package where
  "pkgATest = demoPkg\<lparr> ID := ''a [a.test]'', Syntax := [closeFile, recoverFile] \<rparr>"

definition pkgR :: package where
  "pkgR = demoPkg\<lparr> ID := ''r'', Syntax := [recoverFile] \<rparr>"

definition closeFinding :: UncheckedError where
  "closeFinding =
     \<lparr> Pos = \<lparr> Filename = ''a.go'', Offset = 210, Line = 3, Column = 10 \<rparr>,
       LineText = ''fh.Close()'', FuncName = ''(*os.File).Close'' \<rparr>"

definition recoverFinding :: UncheckedError where
  "recoverFinding =
     \<lparr> Pos = \<lparr> Filename = ''a.go'', Offset = 409, Line = 5, Column = 9 \<rparr>,
       LineText = ''recover()'', FuncName = [] \<rparr>"

definition yaccCloseFinding :: UncheckedError where
  "yaccCloseFinding =
     \<lparr> Pos = \<lparr> Filename = ''/src/gen/parser.y'', Offset = 210, Line = 42, Column = 0 \<rparr>,
       LineText = ''??'', FuncName = ''(*os.File).Close'' \<rparr>"

definition yaccFlushFinding :: UncheckedError where
  "yaccFlushFinding =
     \<lparr> Pos = \<lparr> Filename = ''/src/gen/parser.y'', Offset = 221, Line = 42, Column = 0 \<rparr>,
       LineText = ''??'', FuncName = ''(*bufio.Writer).Flush'' \<rparr>"

section \<open>Properties\<close>

subsection \<open>Auxiliary facts\<close>

lemma Visit_Expr [simp]: "Visit fs v (Expr e) = Some v"
  by (simp add: Visit_def)





lemma forLoop_cong:
  assumes "\<And>i s. i \<in> set is \<Longrightarrow> body i s = body' i s"
  shows "forLoop is body s = forLoop is body' s"
  using assms by (induction "is" arbitrary: s) (auto split: option.splits)




lemma addErrorAtPosition_valid:
  assumes "0 < Line (Fset (pkg v) position)"
  shows "addErrorAtPosition fs v position c =
           Some ((cached fs v (Filename (Fset (pkg v) position)))
                   \<lparr>errors := errors v @ [finding fs v position c]\<rparr>)"
  using assms
  by (auto simp: addErrorAtPosition_def finding_def lineAt_def cached_def Let_def
           split: option.splits)

lemmas demo_defs = demoVisitor_def newVisitor_def demoChecker_def demoPkg_def demoInfo_def
  demoObjects_def demoFset_def demoDisk_def closeCall_def getpidCall_def recoverCall_def fCall_def flushCall_def

lemmas query_defs = isErrorType_def selectorAndFunc_def fullName_def namesForExcludeCheck_def
  argName_def excludeCall_def ignoreCall_def errorsByArg_def isRecover_def callReturnsError_def






lemma Visit_assign_call:
  "Visit fs v (AssignStmt lhs [CallExpr c]) =
     (if \<not> blank v then Some v
      else if ignoreCall v c then Some v
      else forLoop [0..<length lhs] (assignCallBody fs c (errorsByArg v c) lhs) v)"
  by (simp add: Visit_def)

lemma Visit_assign_multi:
  "length rhs \<noteq> 1 \<Longrightarrow>
   Visit fs v (AssignStmt lhs rhs) = forLoop [0..<length lhs] (assignMultiBody fs lhs rhs) v"
  by (simp add: Visit_def)

subsection \<open>Calls without an error result\<close>




lemmas stmt_defs = assignFStmt_def assertStmt_def assertOkStmt_def multiAssertStmt_def tripleStmt_def
  noAssertsVisitor_def noAssertsChecker_def noBlankVisitor_def noBlankChecker_def

lemmas trim_defs = TrimSpace_def trimLeft.simps trimRight.simps leadingSpace_def
  trailingSpace_def spaceRunes_def

subsection \<open>Assignments that discard an error\<close>

lemma assignCallBody_not_blank:
  assumes "\<not> isBlank (lhs ! i)"
  shows "assignCallBody fs c isError lhs i v = Some v"
  using assms by (auto simp: assignCallBody_def isBlank_def split: expr.splits)

lemma assignCallBody_error_slot:
  assumes "lhs ! i = Ident p ''_''" "i < length isError" "isError ! i"
  shows "assignCallBody fs c isError lhs i v = addErrorAtPosition fs v p (Some c)"
  using assms by (simp add: assignCallBody_def)

lemma errorsByArg_pair:
  assumes "Types (Info (pkg v)) (CallExpr c) = Some (Tuple [T, E])"
    and "E = Named n \<or> E = Pointer t" and "isErrorType v E"
  shows "length (errorsByArg v c) = 2 \<and> errorsByArg v c ! 1"
  using assms by (auto simp: errorsByArg_def)

text \<open>
  C4: an assignment with one right-hand side, a call that is not excluded and returns
  \<open>(T, error)\<close>, whose second target is the blank identifier (and whose first is not). With
  blank-assignment checking enabled the visitor appends exactly one finding, at the position
  of the blank identifier; with it disabled the visitor is left as it was.
\<close>

theorem blank_error_slot_assignment:
  assumes "Types (Info (pkg v)) (CallExpr c) = Some (Tuple [T, E])"
    and "E = Named n \<or> E = Pointer t"
    and "isErrorType v E"
    and "\<not> ignoreCall v c"
    and "\<not> isBlank l0"
    and "0 < Line (Fset (pkg v) p)"
  shows "(blank v \<longrightarrow>
            Visit fs v (AssignStmt [l0, Ident p ''_''] [CallExpr c]) =
              Some ((cached fs v (Filename (Fset (pkg v) p)))
                      \<lparr>errors := errors v @ [finding fs v p (Some c)]\<rparr>))
       \<and> (\<not> blank v \<longrightarrow> Visit fs v (AssignStmt [l0, Ident p ''_''] [CallExpr c]) = Some v)"
proof -
  let ?lhs = "[l0, Ident p ''_'']"
  let ?body = "assignCallBody fs c (errorsByArg v c) ?lhs"
  have b0: "?body 0 v = Some v"
    using assms(5) by (simp add: assignCallBody_not_blank)
  have slot: "length (errorsByArg v c) = 2 \<and> errorsByArg v c ! 1"
    using assms(1,2,3) by (rule errorsByArg_pair)
  have b1: "?body 1 v = addErrorAtPosition fs v p (Some c)"
    using slot by (simp add: assignCallBody_error_slot)
  have idx: "[0..<length ?lhs] = [0, 1]"
    by (simp add: upt_rec)
  have loop: "forLoop [0..<length ?lhs] ?body v = addErrorAtPosition fs v p (Some c)"
    unfolding idx using b0 b1 by (simp split: option.splits)
  have on: "Visit fs v (AssignStmt ?lhs [CallExpr c]) = addErrorAtPosition fs v p (Some c)"
    if "blank v"
    unfolding Visit_assign_call using that assms(4) loop by presburger
  have off: "Visit fs v (AssignStmt ?lhs [CallExpr c]) = Some v" if "\<not> blank v"
    unfolding Visit_assign_call using that by presburger
  show ?thesis
    using on off addErrorAtPosition_valid[OF assms(6), of fs "Some c"] by presburger
qed

theorem blank_error_slot_assignment_witness:
  "Types (Info (pkg demoVisitor)) (CallExpr fCall) = Some (Tuple [OtherType ''int'', Named ''error''])
   \<and> isErrorType demoVisitor (Named ''error'')
   \<and> \<not> ignoreCall demoVisitor fCall
   \<and> \<not> isBlank (Ident 502 ''v'')
   \<and> 0 < Line (Fset (pkg demoVisitor) 505)
   \<and> blank demoVisitor
   \<and> map_option errors (Visit demoDisk demoVisitor assignFStmt) =
       Some [\<lparr> Pos = \<lparr> Filename = ''a.go'', Offset = 505, Line = 6, Column = 5 \<rparr>,
               LineText = ''v, _ := f()'', FuncName = [] \<rparr>]
   \<and> \<not> blank noBlankVisitor
   \<and> Visit demoDisk noBlankVisitor assignFStmt = Some noBlankVisitor"
proof -
  have h1: "Types (Info (pkg demoVisitor)) (CallExpr fCall) =
              Some (Tuple [OtherType ''int'', Named ''error''])"
    by (simp add: demo_defs)
  have h1': "Types (Info (pkg noBlankVisitor)) (CallExpr fCall) =
              Some (Tuple [OtherType ''int'', Named ''error''])"
    by (simp add: demo_defs stmt_defs)
  have h2: "Named ''error'' = Named ''error'' \<or> Named ''error'' = Pointer (Named ''error'')"
    by simp
  have h3: "isErrorType demoVisitor (Named ''error'')"
    by (simp add: isErrorType_def demo_defs)
  have h3': "isErrorType noBlankVisitor (Named ''error'')"
    by (simp add: isErrorType_def demo_defs stmt_defs)
  have h4: "\<not> ignoreCall demoVisitor fCall"
    by (simp add: query_defs demo_defs)
  have h4': "\<not> ignoreCall noBlankVisitor fCall"
    by (simp add: query_defs demo_defs stmt_defs)
  have h5: "\<not> isBlank (Ident 502 ''v'')"
    by (simp add: isBlank_def)
  have h6: "0 < Line (Fset (pkg demoVisitor) 505)"
    by (simp add: demo_defs)
  have h6': "0 < Line (Fset (pkg noBlankVisitor) 505)"
    by (simp add: demo_defs stmt_defs)
  have b: "blank demoVisitor" "\<not> blank noBlankVisitor"
    by (simp_all add: demo_defs stmt_defs)
  have t: "TrimSpace (CHR 0x09 # ''v, _ := f()'') = ''v, _ := f()''"
    by (simp add: trim_defs)
  have f: "errors demoVisitor @ [finding demoDisk demoVisitor 505 (Some fCall)] =
        [\<lparr> Pos = \<lparr> Filename = ''a.go'', Offset = 505, Line = 6, Column = 5 \<rparr>,
           LineText = ''v, _ := f()'', FuncName = [] \<rparr>]"
    by (simp add: finding_def lineAt_def readfile_def fullName_def selectorAndFunc_def demo_defs t)
  show ?thesis
    using h1 h3 h4 h5 h6 b f
      blank_error_slot_assignment [OF h1 h2 h3 h4 h5 h6, of demoDisk]
      blank_error_slot_assignment [OF h1' h2 h3' h4' h5 h6', of demoDisk]
    by (simp add: assignFStmt_def)
qed

subsection \<open>Type assertions\<close>

text \<open>
  C5: an assignment with one right-hand side that is a type assertion \<open>x.(T)\<close> (not the
  type-switch form). With a single target and type-assertion checking enabled the visitor
  appends exactly one finding, at the position of the assertion and with an empty function
  name (with checking disabled it appends none). When the second target is an identifier
  other than the blank one, as in \<^verbatim>\<open>v, ok := x.(T)\<close>, the visitor is left as it was,
  whatever the toggles are.
\<close>

theorem unchecked_type_assertion:
  assumes "0 < Line (Fset (pkg v) (expr_Pos x))"
  shows "(asserts v \<longrightarrow>
            Visit fs v (AssignStmt [l0] [TypeAssertExpr x (Some ty)]) =
              Some ((cached fs v (Filename (Fset (pkg v) (expr_Pos x))))
                      \<lparr>errors := errors v @ [finding fs v (expr_Pos x) None]\<rparr>))
       \<and> Pos (finding fs v (expr_Pos x) None) = Fset (pkg v) (expr_Pos x)
       \<and> FuncName (finding fs v (expr_Pos x) None) = []
       \<and> (\<not> asserts v \<longrightarrow> Visit fs v (AssignStmt [l0] [TypeAssertExpr x (Some ty)]) = Some v)
       \<and> (n \<noteq> ''_'' \<longrightarrow>
            Visit fs v (AssignStmt (l0 # Ident p n # rest) [TypeAssertExpr x (Some ty)]) = Some v)"
proof -
  have one: "Visit fs v (AssignStmt [l0] [TypeAssertExpr x (Some ty)]) =
      (if asserts v then addErrorAtPosition fs v (expr_Pos x) None else Some v)"
    by (simp add: Visit_def)
  have two: "Visit fs v (AssignStmt (l0 # Ident p n # rest) [TypeAssertExpr x (Some ty)]) = Some v"
    if "n \<noteq> ''_''"
    using that by (simp add: Visit_def)
  have f: "Pos (finding fs v (expr_Pos x) None) = Fset (pkg v) (expr_Pos x)
      \<and> FuncName (finding fs v (expr_Pos x) None) = []"
    by (simp add: finding_def)
  show ?thesis
    using one two f addErrorAtPosition_valid[OF assms, of fs None] by presburger
qed

theorem unchecked_type_assertion_witness:
  "0 < Line (Fset (pkg demoVisitor) (expr_Pos (Ident 607 ''x'')))
   \<and> asserts demoVisitor
   \<and> map_option errors (Visit demoDisk demoVisitor assertStmt) =
       Some [\<lparr> Pos = \<lparr> Filename = ''a.go'', Offset = 607, Line = 7, Column = 7 \<rparr>,
               LineText = ''n := x.(int)'', FuncName = [] \<rparr>]
   \<and> \<not> asserts noAssertsVisitor
   \<and> Visit demoDisk noAssertsVisitor assertStmt = Some noAssertsVisitor
   \<and> ''ok'' \<noteq> ''_''
   \<and> Visit demoDisk demoVisitor assertOkStmt = Some demoVisitor
   \<and> Visit demoDisk noAssertsVisitor assertOkStmt = Some noAssertsVisitor"
proof -
  have h1: "0 < Line (Fset (pkg demoVisitor) (expr_Pos (Ident 607 ''x'')))"
    by (simp add: demo_defs)
  have h1': "0 < Line (Fset (pkg noAssertsVisitor) (expr_Pos (Ident 607 ''x'')))"
    by (simp add: demo_defs stmt_defs)
  have h2: "0 < Line (Fset (pkg demoVisitor) (expr_Pos (Ident 711 ''x'')))"
    by (simp add: demo_defs)
  have h2': "0 < Line (Fset (pkg noAssertsVisitor) (expr_Pos (Ident 711 ''x'')))"
    by (simp add: demo_defs stmt_defs)
  have a: "asserts demoVisitor" "\<not> asserts noAssertsVisitor"
    by (simp_all add: demo_defs stmt_defs)
  have t: "TrimSpace (CHR 0x09 # ''n := x.(int)'') = ''n := x.(int)''"
    by (simp add: trim_defs)
  have f: "errors demoVisitor @ [finding demoDisk demoVisitor (expr_Pos (Ident 607 ''x'')) None] =
        [\<lparr> Pos = \<lparr> Filename = ''a.go'', Offset = 607, Line = 7, Column = 7 \<rparr>,
           LineText = ''n := x.(int)'', FuncName = [] \<rparr>]"
    by (simp add: finding_def lineAt_def readfile_def demo_defs t)
  show ?thesis
    using h1 a f
      unchecked_type_assertion [OF h1, where fs = demoDisk and ?l0.0 = "Ident 602 ''n''"
        and ty = "Ident 610 ''int''"]
      unchecked_type_assertion [OF h1', where fs = demoDisk and ?l0.0 = "Ident 602 ''n''"
        and ty = "Ident 610 ''int''"]
      unchecked_type_assertion [OF h2, where fs = demoDisk and ?l0.0 = "Ident 702 ''m''"
        and ty = "Ident 714 ''int''" and p = 705 and n = "''ok''" and rest = "[]"]
      unchecked_type_assertion [OF h2', where fs = demoDisk and ?l0.0 = "Ident 702 ''m''"
        and ty = "Ident 714 ''int''" and p = 705 and n = "''ok''" and rest = "[]"]
    by (simp add: assertStmt_def assertOkStmt_def)
qed

subsection \<open>Type assertions in an assignment with several right-hand sides\<close>

lemma sameView_refl: "sameView fs v v"
  by (simp add: sameView_def)

lemma lineAt_cached:
  "lineAt fs ((cached fs v f)\<lparr>errors := es\<rparr>) pos = lineAt fs v pos"
  by (simp add: lineAt_def cached_def split: option.splits)

lemma sameView_cached:
  assumes "sameView fs v s"
  shows "sameView fs v ((cached fs s f)\<lparr>errors := es\<rparr>)"
proof -
  have "pkg (cached fs s f) = pkg s \<and> blank (cached fs s f) = blank s
      \<and> asserts (cached fs s f) = asserts s \<and> ignore (cached fs s f) = ignore s
      \<and> exclude (cached fs s f) = exclude s \<and> go111module (cached fs s f) = go111module s"
    by (simp add: cached_def split: option.splits)
  then show ?thesis using assms by (simp add: sameView_def lineAt_cached)
qed

lemma finding_sameView:
  assumes "sameView fs v s"
  shows "finding fs s p None = finding fs v p None"
  using assms by (simp add: finding_def sameView_def)

lemma add_sameView:
  assumes "sameView fs v s" "0 < Line (Fset (pkg v) p)"
  shows "addErrorAtPosition fs s p None =
           Some ((cached fs s (Filename (Fset (pkg s) p)))\<lparr>errors := errors s @ [finding fs v p None]\<rparr>)"
proof -
  have "0 < Line (Fset (pkg s) p)" using assms by (simp add: sameView_def)
  then show ?thesis
    using addErrorAtPosition_valid[of s p fs None] finding_sameView[OF assms(1), of p] by simp
qed

lemma add_call_sameView:
  assumes "sameView fs v s" "0 < Line (Fset (pkg v) p)"
  shows "\<exists>s'. addErrorAtPosition fs s p c = Some s' \<and> sameView fs v s'
            \<and> (\<exists>new. errors s' = errors s @ new)"
proof -
  have "0 < Line (Fset (pkg s) p)" using assms by (simp add: sameView_def)
  then have "addErrorAtPosition fs s p c =
      Some ((cached fs s (Filename (Fset (pkg s) p)))\<lparr>errors := errors s @ [finding fs s p c]\<rparr>)"
    by (rule addErrorAtPosition_valid)
  then show ?thesis using sameView_cached[OF assms(1)] by simp
qed

lemma assignMultiBody_total:
  assumes "sameView fs v s" "targetHasLine v (lhs ! j)" "j < length rhs"
  shows "\<exists>s'. assignMultiBody fs lhs rhs j s = Some s' \<and> sameView fs v s'
            \<and> (\<exists>new. errors s' = errors s @ new)"
proof (cases "lhs ! j")
  case (Ident q m)
  then have line: "0 < Line (Fset (pkg v) q)"
    using assms(2) by (simp add: targetHasLine_def)
  have keep: "\<exists>s'. Some s = Some s' \<and> sameView fs v s' \<and> (\<exists>new. errors s' = errors s @ new)"
    using assms(1) by simp
  show ?thesis
    unfolding assignMultiBody_def
    using Ident assms(3) keep add_call_sameView[OF assms(1) line]
    by (simp split: expr.splits)
qed (use assms(1) in \<open>simp_all add: assignMultiBody_def\<close>)

lemma assignMultiBody_assert:
  assumes "sameView fs v s" "0 < Line (Fset (pkg v) p)" "i < length rhs"
    and "lhs ! i = Ident p n" "rhs ! i = TypeAssertExpr x (Some ty)" "asserts v"
  shows "\<exists>s'. assignMultiBody fs lhs rhs i s = Some s' \<and> sameView fs v s'
            \<and> (\<exists>new. errors s' = errors s @ new \<and> finding fs v p None \<in> set new)"
proof -
  have "asserts s" using assms(1,6) by (simp add: sameView_def)
  then have "assignMultiBody fs lhs rhs i s = addErrorAtPosition fs s p None"
    using assms(3,4,5) by (simp add: assignMultiBody_def)
  then show ?thesis
    using add_sameView[OF assms(1,2)] sameView_cached[OF assms(1)] by simp
qed

lemma forLoop_total:
  assumes "P s"
    and "\<And>j t. j \<in> set is \<Longrightarrow> P t \<Longrightarrow>
           \<exists>t'. body j t = Some t' \<and> P t' \<and> (\<exists>new. errors t' = errors t @ new)"
  shows "\<exists>s'. forLoop is body s = Some s' \<and> P s' \<and> (\<exists>new. errors s' = errors s @ new)"
  using assms
proof (induction "is" arbitrary: s)
  case Nil
  then show ?case by simp
next
  case (Cons j js)
  obtain t n1 where t: "body j s = Some t" "P t" "errors t = errors s @ n1"
    using Cons.prems(2)[of j s] Cons.prems(1) by auto
  obtain s' n2 where s': "forLoop js body t = Some s'" "P s'" "errors s' = errors t @ n2"
    using Cons.IH[OF t(2)] Cons.prems(2) by auto
  show ?case using t s' by simp
qed

lemma forLoop_records:
  assumes "P s" and "i \<in> set is"
    and "\<And>j t. j \<in> set is \<Longrightarrow> P t \<Longrightarrow>
           \<exists>t'. body j t = Some t' \<and> P t' \<and> (\<exists>new. errors t' = errors t @ new)"
    and "\<And>t. P t \<Longrightarrow>
           \<exists>t'. body i t = Some t' \<and> P t' \<and> (\<exists>new. errors t' = errors t @ new \<and> F \<in> set new)"
  shows "\<exists>s'. forLoop is body s = Some s' \<and> (\<exists>new. errors s' = errors s @ new \<and> F \<in> set new)"
  using assms(1,2,3)
proof (induction "is" arbitrary: s)
  case Nil
  then show ?case by simp
next
  case (Cons j js)
  show ?case
  proof (cases "j = i")
    case True
    obtain t n1 where t: "body j s = Some t" "P t" "errors t = errors s @ n1" "F \<in> set n1"
      using assms(4)[OF Cons.prems(1)] True by auto
    obtain s' n2 where s': "forLoop js body t = Some s'" "errors s' = errors t @ n2"
      using forLoop_total[of P t js body, OF t(2)] Cons.prems(3) by auto
    show ?thesis using t s' by simp
  next
    case False
    then have mem: "i \<in> set js" using Cons.prems(2) by simp
    obtain t n1 where t: "body j s = Some t" "P t" "errors t = errors s @ n1"
      using Cons.prems(3)[of j s] Cons.prems(1) by auto
    obtain s' n2 where s': "forLoop js body t = Some s'" "errors s' = errors t @ n2" "F \<in> set n2"
      using Cons.IH[OF t(2) mem] Cons.prems(3) by auto
    show ?thesis using t s' by simp
  qed
qed




lemma multi_assert_recorded:
  assumes "length rhs \<noteq> 1" and "i < length lhs" and "length lhs \<le> length rhs"
    and "lhs ! i = Ident p n" and "rhs ! i = TypeAssertExpr x (Some ty)"
    and "targetsHaveLines v lhs" and "asserts v"
  shows "\<exists>v' new. Visit fs v (AssignStmt lhs rhs) = Some v'
            \<and> errors v' = errors v @ new \<and> finding fs v p None \<in> set new"
proof -
  have V: "Visit fs v (AssignStmt lhs rhs) =
           forLoop [0..<length lhs] (assignMultiBody fs lhs rhs) v"
    using assms(1) by (rule Visit_assign_multi)
  have tl: "targetHasLine v (lhs ! j)" if "j < length lhs" for j
    using assms(6) that by (simp add: targetsHaveLines_def list_all_length)
  have line: "0 < Line (Fset (pkg v) p)"
    using tl[OF assms(2)] assms(4) by (simp add: targetHasLine_def)
  have "\<exists>s'. forLoop [0..<length lhs] (assignMultiBody fs lhs rhs) v = Some s'
          \<and> (\<exists>new. errors s' = errors v @ new \<and> finding fs v p None \<in> set new)"
  proof (rule forLoop_records[where P = "sameView fs v" and i = i])
    show "sameView fs v v" by (rule sameView_refl)
  next
    show "i \<in> set [0..<length lhs]" using assms(2) by simp
  next
    fix j t assume j: "j \<in> set [0..<length lhs]" and sv: "sameView fs v t"
    from j have "j < length lhs" by simp
    then have "targetHasLine v (lhs ! j)" "j < length rhs"
      using tl assms(3) by simp_all
    with sv show "\<exists>t'. assignMultiBody fs lhs rhs j t = Some t' \<and> sameView fs v t'
                  \<and> (\<exists>new. errors t' = errors t @ new)"
      by (rule assignMultiBody_total)
  next
    fix t assume sv: "sameView fs v t"
    have "i < length rhs" using assms(2,3) by simp
    with sv line show "\<exists>t'. assignMultiBody fs lhs rhs i t = Some t' \<and> sameView fs v t'
                  \<and> (\<exists>new. errors t' = errors t @ new \<and> finding fs v p None \<in> set new)"
      using assms(4,5,7) by (rule assignMultiBody_assert)
  qed
  then show ?thesis unfolding V by blast
qed


lemma targets_demo:
  "targetsHaveLines demoVisitor [Ident 802 ''a'', Ident 805 ''b'']
   \<and> targetsHaveLines demoVisitor [Ident 902 ''c'', Ident 905 ''d'', Ident 908 ''e'']
   \<and> \<not> targetsHaveLines demoVisitor [Ident 0 ''a'']"
  by (simp add: targetsHaveLines_def targetHasLine_def demo_defs)




text \<open>
  C10: with type-assertion checking enabled, in an assignment with several right-hand
  sides (as many as targets, the identifiers among the targets having positions with a
  line number) a type assertion \<open>x.(T)\<close> bound to an identifier is reported at the position
  of that identifier, with an empty function name, whatever the identifier is called:
  capturing the result in a named target does not prevent the finding. In particular
  \<^verbatim>\<open>a, b := x.(T), y.(U)\<close> yields exactly two findings, one at \<open>a\<close> and one at \<open>b\<close>.
\<close>

theorem multi_assert_named_targets:
  assumes "asserts v"
  shows "(length rhs \<noteq> 1 \<and> i < length lhs \<and> length lhs \<le> length rhs
            \<and> lhs ! i = Ident p n \<and> rhs ! i = TypeAssertExpr x (Some ty)
            \<and> targetsHaveLines v lhs \<longrightarrow>
            (\<exists>v' new. Visit fs v (AssignStmt lhs rhs) = Some v'
                \<and> errors v' = errors v @ new \<and> finding fs v p None \<in> set new))
       \<and> Pos (finding fs v p None) = Fset (pkg v) p
       \<and> FuncName (finding fs v p None) = []
       \<and> (0 < Line (Fset (pkg v) a) \<and> 0 < Line (Fset (pkg v) b) \<longrightarrow>
            map_option errors
              (Visit fs v (AssignStmt [Ident a na, Ident b nb]
                             [TypeAssertExpr y (Some T), TypeAssertExpr z (Some U)])) =
            Some (errors v @ [finding fs v a None, finding fs v b None]))"
proof -
  have general: "\<exists>v' new. Visit fs v (AssignStmt lhs rhs) = Some v'
                \<and> errors v' = errors v @ new \<and> finding fs v p None \<in> set new"
    if "length rhs \<noteq> 1" "i < length lhs" "length lhs \<le> length rhs"
      "lhs ! i = Ident p n" "rhs ! i = TypeAssertExpr x (Some ty)" "targetsHaveLines v lhs"
    using that assms by (rule multi_assert_recorded)
  have fields: "Pos (finding fs v p None) = Fset (pkg v) p \<and> FuncName (finding fs v p None) = []"
    by (simp add: finding_def)
  have two: "map_option errors
              (Visit fs v (AssignStmt [Ident a na, Ident b nb]
                             [TypeAssertExpr y (Some T), TypeAssertExpr z (Some U)])) =
            Some (errors v @ [finding fs v a None, finding fs v b None])"
    if la: "0 < Line (Fset (pkg v) a)" and lb: "0 < Line (Fset (pkg v) b)"
  proof -
    let ?lhs = "[Ident a na, Ident b nb]"
    let ?rhs = "[TypeAssertExpr y (Some T), TypeAssertExpr z (Some U)]"
    let ?v1 = "(cached fs v (Filename (Fset (pkg v) a)))\<lparr>errors := errors v @ [finding fs v a None]\<rparr>"
    have V: "Visit fs v (AssignStmt ?lhs ?rhs) =
             forLoop [0..<length ?lhs] (assignMultiBody fs ?lhs ?rhs) v"
      by (rule Visit_assign_multi) simp
    have idx: "[0..<length ?lhs] = [0, 1]" by (simp add: upt_rec)
    have b0: "assignMultiBody fs ?lhs ?rhs 0 v = Some ?v1"
      using assms add_sameView[OF sameView_refl la, of fs]
      by (simp add: assignMultiBody_def)
    have sv: "sameView fs v ?v1"
      by (rule sameView_cached[OF sameView_refl])
    then have a1: "asserts ?v1" using assms by (simp add: sameView_def)
    have b1: "assignMultiBody fs ?lhs ?rhs 1 ?v1 =
        Some ((cached fs ?v1 (Filename (Fset (pkg ?v1) b)))
                \<lparr>errors := errors ?v1 @ [finding fs v b None]\<rparr>)"
      using a1 add_sameView[OF sv lb] by (simp add: assignMultiBody_def)
    have "map_option errors (forLoop [0, 1] (assignMultiBody fs ?lhs ?rhs) v) =
          Some (errors v @ [finding fs v a None, finding fs v b None])"
      using b0 b1 by simp
    then show ?thesis unfolding V idx by simp
  qed
  show ?thesis using general fields two by blast
qed

theorem multi_assert_named_targets_witness:
  "asserts demoVisitor
   \<and> targetsHaveLines demoVisitor [Ident 902 ''c'', Ident 905 ''d'', Ident 908 ''e'']
   \<and> (\<exists>v' new. Visit demoDisk demoVisitor tripleStmt = Some v'
         \<and> errors v' = errors demoVisitor @ new
         \<and> finding demoDisk demoVisitor 902 None \<in> set new)
   \<and> (\<exists>v' new. Visit demoDisk demoVisitor tripleStmt = Some v'
         \<and> errors v' = errors demoVisitor @ new
         \<and> finding demoDisk demoVisitor 908 None \<in> set new)
   \<and> map_option errors (Visit demoDisk demoVisitor tripleStmt) =
       Some [\<lparr> Pos = \<lparr> Filename = ''a.go'', Offset = 902, Line = 10, Column = 2 \<rparr>,
               LineText = ''c, d, e := x.(T), z, y.(U)'', FuncName = [] \<rparr>,
             \<lparr> Pos = \<lparr> Filename = ''a.go'', Offset = 908, Line = 10, Column = 8 \<rparr>,
               LineText = ''c, d, e := x.(T), z, y.(U)'', FuncName = [] \<rparr>]
   \<and> 0 < Line (Fset (pkg demoVisitor) 802) \<and> 0 < Line (Fset (pkg demoVisitor) 805)
   \<and> map_option errors (Visit demoDisk demoVisitor multiAssertStmt) =
       Some [\<lparr> Pos = \<lparr> Filename = ''a.go'', Offset = 802, Line = 9, Column = 2 \<rparr>,
               LineText = ''a, b := x.(T), y.(U)'', FuncName = [] \<rparr>,
             \<lparr> Pos = \<lparr> Filename = ''a.go'', Offset = 805, Line = 9, Column = 5 \<rparr>,
               LineText = ''a, b := x.(T), y.(U)'', FuncName = [] \<rparr>]"
proof -
  let ?lhs = "[Ident 902 ''c'', Ident 905 ''d'', Ident 908 ''e'']"
  let ?rhs = "[TypeAssertExpr (Ident 913 ''x'') (Some (Ident 916 ''T'')), Ident 920 ''z'',
               TypeAssertExpr (Ident 923 ''y'') (Some (Ident 926 ''U''))]"
  have a: "asserts demoVisitor" by (simp add: demo_defs)
  have t: "targetsHaveLines demoVisitor ?lhs" using targets_demo by simp
  have h0: "length ?rhs \<noteq> 1 \<and> 0 < length ?lhs \<and> length ?lhs \<le> length ?rhs
      \<and> ?lhs ! 0 = Ident 902 ''c''
      \<and> ?rhs ! 0 = TypeAssertExpr (Ident 913 ''x'') (Some (Ident 916 ''T''))
      \<and> targetsHaveLines demoVisitor ?lhs"
    using t by simp
  have h2: "length ?rhs \<noteq> 1 \<and> 2 < length ?lhs \<and> length ?lhs \<le> length ?rhs
      \<and> ?lhs ! 2 = Ident 908 ''e''
      \<and> ?rhs ! 2 = TypeAssertExpr (Ident 923 ''y'') (Some (Ident 926 ''U''))
      \<and> targetsHaveLines demoVisitor ?lhs"
    using t by simp
  have r0: "\<exists>v' new. Visit demoDisk demoVisitor (AssignStmt ?lhs ?rhs) = Some v'
         \<and> errors v' = errors demoVisitor @ new
         \<and> finding demoDisk demoVisitor 902 None \<in> set new"
    using multi_assert_named_targets [OF a, where fs = demoDisk and lhs = ?lhs and rhs = ?rhs
        and i = 0 and p = 902 and n = "''c''", THEN conjunct1, rule_format, OF h0] .
  have r2: "\<exists>v' new. Visit demoDisk demoVisitor (AssignStmt ?lhs ?rhs) = Some v'
         \<and> errors v' = errors demoVisitor @ new
         \<and> finding demoDisk demoVisitor 908 None \<in> set new"
    using multi_assert_named_targets [OF a, where fs = demoDisk and lhs = ?lhs and rhs = ?rhs
        and i = 2 and p = 908 and n = "''e''", THEN conjunct1, rule_format, OF h2] .
  have l: "0 < Line (Fset (pkg demoVisitor) 802) \<and> 0 < Line (Fset (pkg demoVisitor) 805)"
    by (simp add: demo_defs)
  have t9: "TrimSpace (CHR 0x09 # ''a, b := x.(T), y.(U)'') = ''a, b := x.(T), y.(U)''"
    by (simp add: trim_defs)
  have t10: "TrimSpace (CHR 0x09 # ''c, d, e := x.(T), z, y.(U)'') = ''c, d, e := x.(T), z, y.(U)''"
    by (simp add: trim_defs)
  have f: "errors demoVisitor @ [finding demoDisk demoVisitor 802 None, finding demoDisk demoVisitor 805 None] =
        [\<lparr> Pos = \<lparr> Filename = ''a.go'', Offset = 802, Line = 9, Column = 2 \<rparr>,
           LineText = ''a, b := x.(T), y.(U)'', FuncName = [] \<rparr>,
         \<lparr> Pos = \<lparr> Filename = ''a.go'', Offset = 805, Line = 9, Column = 5 \<rparr>,
           LineText = ''a, b := x.(T), y.(U)'', FuncName = [] \<rparr>]"
    by (simp add: finding_def lineAt_def readfile_def demo_defs t9)
  have two: "map_option errors (Visit demoDisk demoVisitor multiAssertStmt) =
        Some (errors demoVisitor @ [finding demoDisk demoVisitor 802 None, finding demoDisk demoVisitor 805 None])"
    unfolding multiAssertStmt_def
    using multi_assert_named_targets [OF a, where fs = demoDisk and a = 802 and na = "''a''"
        and b = 805 and nb = "''b''" and y = "Ident 810 ''x''" and T = "Ident 813 ''T''"
        and z = "Ident 817 ''y''" and U = "Ident 820 ''U''",
        THEN conjunct2, THEN conjunct2, THEN conjunct2, rule_format, OF l] .
  have three: "map_option errors (Visit demoDisk demoVisitor tripleStmt) =
       Some [\<lparr> Pos = \<lparr> Filename = ''a.go'', Offset = 902, Line = 10, Column = 2 \<rparr>,
               LineText = ''c, d, e := x.(T), z, y.(U)'', FuncName = [] \<rparr>,
             \<lparr> Pos = \<lparr> Filename = ''a.go'', Offset = 908, Line = 10, Column = 8 \<rparr>,
               LineText = ''c, d, e := x.(T), z, y.(U)'', FuncName = [] \<rparr>]"
    by (simp add: Visit_def assignMultiBody_def upt_rec addErrorAtPosition_def readfile_def
        Let_def demo_defs stmt_defs t10)
  show ?thesis
    unfolding two f three using a t r0 r2 l by (simp add: tripleStmt_def three [unfolded tripleStmt_def])
qed

subsection \<open>The matcher decides the language; the two patterns\<close>

lemma nullable_lang: "nullable r \<longleftrightarrow> [] \<in> lang r"
  by (induction r) (auto simp: conc_def intro: star.star_empty)

lemma conc_Cons:
  "c # w \<in> conc A B \<longleftrightarrow>
     ([] \<in> A \<and> c # w \<in> B) \<or> (\<exists>u t. w = u @ t \<and> c # u \<in> A \<and> t \<in> B)"
proof
  assume "c # w \<in> conc A B"
  then obtain u t where ut: "c # w = u @ t" "u \<in> A" "t \<in> B"
    by (auto simp: conc_def)
  show "([] \<in> A \<and> c # w \<in> B) \<or> (\<exists>u t. w = u @ t \<and> c # u \<in> A \<and> t \<in> B)"
  proof (cases u)
    case Nil
    with ut show ?thesis by simp
  next
    case (Cons d u')
    with ut have "w = u' @ t" "c # u' \<in> A" by simp_all
    with ut(3) show ?thesis by blast
  qed
next
  assume "([] \<in> A \<and> c # w \<in> B) \<or> (\<exists>u t. w = u @ t \<and> c # u \<in> A \<and> t \<in> B)"
  then show "c # w \<in> conc A B"
  proof
    assume "[] \<in> A \<and> c # w \<in> B"
    then have "[] @ (c # w) \<in> conc A B" unfolding conc_def by blast
    then show ?thesis by simp
  next
    assume "\<exists>u t. w = u @ t \<and> c # u \<in> A \<and> t \<in> B"
    then obtain u t where "w = u @ t" "c # u \<in> A" "t \<in> B" by blast
    then have "(c # u) @ t \<in> conc A B" unfolding conc_def by blast
    with \<open>w = u @ t\<close> show ?thesis by simp
  qed
qed

lemma star_Cons_split:
  assumes "x \<in> star A" "x = c # w"
  shows "\<exists>u t. w = u @ t \<and> c # u \<in> A \<and> t \<in> star A"
  using assms
proof (induction arbitrary: w rule: star.induct)
  case star_empty
  then show ?case by simp
next
  case (star_step u t)
  show ?case
  proof (cases u)
    case Nil
    with star_step show ?thesis by simp
  next
    case (Cons d u')
    with star_step.prems have "w = u' @ t" "d = c" by simp_all
    with Cons star_step.hyps show ?thesis by blast
  qed
qed

lemma star_Cons:
  "c # w \<in> star A \<longleftrightarrow> (\<exists>u t. w = u @ t \<and> c # u \<in> A \<and> t \<in> star A)"
proof
  assume "c # w \<in> star A"
  then show "\<exists>u t. w = u @ t \<and> c # u \<in> A \<and> t \<in> star A"
    by (rule star_Cons_split) simp
next
  assume "\<exists>u t. w = u @ t \<and> c # u \<in> A \<and> t \<in> star A"
  then obtain u t where "w = u @ t" "c # u \<in> A" "t \<in> star A" by blast
  then have "(c # u) @ t \<in> star A" by (intro star.star_step)
  with \<open>w = u @ t\<close> show "c # w \<in> star A" by simp
qed

lemma deriv_lang: "w \<in> lang (deriv c r) \<longleftrightarrow> c # w \<in> lang r"
proof (induction r arbitrary: w)
  case (Seq r s)
  have "w \<in> conc (lang (deriv c r)) (lang s) \<longleftrightarrow>
          (\<exists>u t. w = u @ t \<and> c # u \<in> lang r \<and> t \<in> lang s)"
    using Seq.IH(1) by (auto simp: conc_def)
  then show ?case using Seq.IH(2)
    by (auto simp: conc_Cons nullable_lang)
next
  case (Star r)
  have "w \<in> conc (lang (deriv c r)) (star (lang r)) \<longleftrightarrow>
          (\<exists>u t. w = u @ t \<and> c # u \<in> lang r \<and> t \<in> star (lang r))"
    using Star.IH by (auto simp: conc_def)
  then show ?case by (simp add: star_Cons)
qed auto

lemma matches_lang: "matches r s \<longleftrightarrow> s \<in> lang r"
  by (induction s arbitrary: r) (simp_all add: nullable_lang deriv_lang)

lemma lang_lits: "lang (lits p) = {p}"
  by (induction p) (auto simp: conc_def)

lemma star_Dot: "s \<in> star (lang Dot) \<longleftrightarrow> CHR 0x0A \<notin> set s"
proof
  assume "s \<in> star (lang Dot)"
  then show "CHR 0x0A \<notin> set s"
    by (induction rule: star.induct) auto
next
  assume "CHR 0x0A \<notin> set s"
  then show "s \<in> star (lang Dot)"
  proof (induction s)
    case Nil
    show ?case by (rule star.star_empty)
  next
    case (Cons c s)
    then have "[c] \<in> lang Dot" "s \<in> star (lang Dot)" by auto
    then have "[c] @ s \<in> star (lang Dot)" by (rule star.star_step)
    then show ?case by simp
  qed
qed

lemma star_AnyChar: "s \<in> star (lang AnyChar)"
proof (induction s)
  case Nil
  show ?case by (rule star.star_empty)
next
  case (Cons c s)
  have "[c] \<in> lang AnyChar" by simp
  then have "[c] @ s \<in> star (lang AnyChar)" using Cons by (rule star.star_step)
  then show ?case by simp
qed

lemma MatchString_generated:
  "MatchString generatedCodeRegexp s \<longleftrightarrow>
     (\<exists>mid. s = ''// Code generated '' @ mid @ '' DO NOT EDIT.'' \<and> CHR 0x0A \<notin> set mid)"
proof -
  have "MatchString generatedCodeRegexp s \<longleftrightarrow>
      s \<in> conc {[]} (conc (conc {''// Code generated ''} (conc (star (lang Dot)) {'' DO NOT EDIT.''})) {[]})"
    unfolding MatchString_def generatedCodeRegexp_def matches_lang
    by (simp add: lang_lits del: lits.simps)
  also have "\<dots> \<longleftrightarrow>
      (\<exists>mid. s = ''// Code generated '' @ mid @ '' DO NOT EDIT.'' \<and> mid \<in> star (lang Dot))"
    unfolding conc_def by auto
  finally show ?thesis unfolding star_Dot .
qed

lemma MatchString_dotStar: "MatchString dotStar s"
proof -
  have "[] @ [] @ s \<in> conc (star (lang AnyChar)) (conc (star (lang Dot)) (star (lang AnyChar)))"
    unfolding conc_def using star_AnyChar star.star_empty by blast
  then show ?thesis
    by (simp add: MatchString_def dotStar_def matches_lang)
qed

subsection \<open>Generated files\<close>

lemma commentsMatch_iff:
  "commentsMatch cs \<longleftrightarrow> (\<exists>comment \<in> set cs. MatchString generatedCodeRegexp comment)"
  by (induction cs) auto

lemma groupsMatch_iff:
  "groupsMatch gs \<longleftrightarrow> (\<exists>comment \<in> set (concat gs). MatchString generatedCodeRegexp comment)"
  by (induction gs) (auto simp: commentsMatch_iff)

lemma marker_matches:
  assumes "CHR 0x0A \<notin> set x"
  shows "MatchString generatedCodeRegexp (''// Code generated by '' @ x @ ''. DO NOT EDIT.'')"
proof -
  have "''// Code generated by '' @ x @ ''. DO NOT EDIT.'' =
        ''// Code generated '' @ (''by '' @ x @ ''.'') @ '' DO NOT EDIT.''"
    by simp
  moreover have "CHR 0x0A \<notin> set (''by '' @ x @ ''.'')"
    using assms by simp
  ultimately show ?thesis unfolding MatchString_generated by blast
qed

lemma no_final_clause_no_match:
  assumes "\<not> suffix '' DO NOT EDIT.'' comment"
  shows "\<not> MatchString generatedCodeRegexp comment"
proof
  assume "MatchString generatedCodeRegexp comment"
  then obtain mid where "comment = ''// Code generated '' @ mid @ '' DO NOT EDIT.''"
    unfolding MatchString_generated by blast
  then have "comment = (''// Code generated '' @ mid) @ '' DO NOT EDIT.''" by simp
  then have "suffix '' DO NOT EDIT.'' comment" unfolding suffix_def by blast
  with assms show False by simp
qed

text \<open>
  C7: with generated files excluded, a file with the comment
  \<^verbatim>\<open>// Code generated by X. DO NOT EDIT.\<close> among its comments (for any \<open>X\<close> on one line) is
  skipped: the worker goes on to the next file and the visitor keeps its findings as they
  were. A file whose only comment does not end in \<^verbatim>\<open> DO NOT EDIT.\<close>, such as
  \<^verbatim>\<open>// Code generated by X.\<close>, is not skipped: the worker walks all of it, and the findings
  are those of the walk.
\<close>

theorem generated_file_marker:
  assumes "GeneratedFiles (Exclusions c)"
  shows "(CHR 0x0A \<notin> set x
            \<and> ''// Code generated by '' @ x @ ''. DO NOT EDIT.'' \<in> set (concat (Comments f))
          \<longrightarrow> shouldSkipFile c f \<and> checkFiles c fs v (f # rest) = checkFiles c fs v rest)
       \<and> (Comments g = [[comment]] \<and> \<not> suffix '' DO NOT EDIT.'' comment
          \<longrightarrow> \<not> shouldSkipFile c g \<and> checkFiles c fs v [g] = WalkNodes fs v (Decls g))"
proof -
  have skip: "shouldSkipFile c f \<and> checkFiles c fs v (f # rest) = checkFiles c fs v rest"
    if "CHR 0x0A \<notin> set x"
      "''// Code generated by '' @ x @ ''. DO NOT EDIT.'' \<in> set (concat (Comments f))"
  proof -
    have "groupsMatch (Comments f)"
      unfolding groupsMatch_iff using that marker_matches[OF that(1)] by blast
    then have "shouldSkipFile c f" using assms by (simp add: shouldSkipFile_def)
    then show ?thesis by simp
  qed
  have scan: "\<not> shouldSkipFile c g \<and> checkFiles c fs v [g] = WalkNodes fs v (Decls g)"
    if "Comments g = [[comment]]" "\<not> suffix '' DO NOT EDIT.'' comment"
  proof -
    have "\<not> groupsMatch (Comments g)"
      using that(1) no_final_clause_no_match[OF that(2)] by simp
    then have "\<not> shouldSkipFile c g" by (simp add: shouldSkipFile_def)
    then show ?thesis by (cases "WalkNodes fs v (Decls g)") simp_all
  qed
  show ?thesis using skip scan by blast
qed

lemma trim_close: "TrimSpace (CHR 0x09 # ''fh.Close()'') = ''fh.Close()''"
  by (simp add: trim_defs)

lemma half_marked_scan:
  "map_option errors (WalkNodes demoDisk demoVisitor (Decls halfMarkedFile)) =
     Some [\<lparr> Pos = \<lparr> Filename = ''a.go'', Offset = 210, Line = 3, Column = 10 \<rparr>,
             LineText = ''fh.Close()'', FuncName = ''(*os.File).Close'' \<rparr>]"
  by (simp add: halfMarkedFile_def Visit_def query_defs demo_defs addErrorAtPosition_def
      readfile_def trim_close Let_def)

theorem generated_file_marker_witness:
  "GeneratedFiles (Exclusions genChecker)
   \<and> CHR 0x0A \<notin> set ''X''
   \<and> ''// Code generated by '' @ ''X'' @ ''. DO NOT EDIT.'' \<in> set (concat (Comments generatedFile))
   \<and> shouldSkipFile genChecker generatedFile
   \<and> checkFiles genChecker demoDisk demoVisitor [generatedFile] = Some demoVisitor
   \<and> Comments halfMarkedFile = [[''// Code generated by X.'']]
   \<and> \<not> suffix '' DO NOT EDIT.'' ''// Code generated by X.''
   \<and> \<not> shouldSkipFile genChecker halfMarkedFile
   \<and> map_option errors (checkFiles genChecker demoDisk demoVisitor [halfMarkedFile]) =
       Some [\<lparr> Pos = \<lparr> Filename = ''a.go'', Offset = 210, Line = 3, Column = 10 \<rparr>,
               LineText = ''fh.Close()'', FuncName = ''(*os.File).Close'' \<rparr>]"
proof -
  have h1: "GeneratedFiles (Exclusions genChecker)"
    by (simp add: genChecker_def demoChecker_def)
  have h2: "CHR 0x0A \<notin> set ''X''" by simp
  have h3: "''// Code generated by '' @ ''X'' @ ''. DO NOT EDIT.'' \<in> set (concat (Comments generatedFile))"
    by (simp add: generatedFile_def)
  have h4: "Comments halfMarkedFile = [[''// Code generated by X.'']]"
    by (simp add: halfMarkedFile_def)
  have h5: "\<not> suffix '' DO NOT EDIT.'' ''// Code generated by X.''"
    by (simp add: suffix_to_prefix)
  note r = generated_file_marker [OF h1, where x = "''X''" and f = generatedFile and fs = demoDisk
        and v = demoVisitor and rest = "[]" and g = halfMarkedFile
        and comment = "''// Code generated by X.''"]
  have a: "shouldSkipFile genChecker generatedFile
      \<and> checkFiles genChecker demoDisk demoVisitor [generatedFile] =
          checkFiles genChecker demoDisk demoVisitor []"
    using r h2 h3 by blast
  have b: "\<not> shouldSkipFile genChecker halfMarkedFile
      \<and> checkFiles genChecker demoDisk demoVisitor [halfMarkedFile] =
          WalkNodes demoDisk demoVisitor (Decls halfMarkedFile)"
    using r h4 h5 by blast
  have c: "checkFiles genChecker demoDisk demoVisitor [] = Some demoVisitor" by simp
  show ?thesis
    using h1 h2 h3 h4 h5 a b half_marked_scan by (simp only: c) simp
qed

subsection \<open>Packages that failed to load\<close>

lemma enqueue_find:
  "enqueue work pkgs =
     (case find (\<lambda>p. Errors p \<noteq> []) pkgs of
        Some p \<Rightarrow> Inl (ErrorsWhileLoading (ID p) (Errors p))
      | None \<Rightarrow> Inr (work @ pkgs))"
  by (induction pkgs arbitrary: work) (auto split: option.splits)

text \<open>
  C8: when the loader returns packages and one of them carries errors, \<^verbatim>\<open>CheckPackages\<close>
  runs no visitor and returns the error built from the first such package: no findings and
  no partial result.
\<close>

theorem load_diagnostic_aborts:
  assumes "load c e paths = Inr pkgs" and "q \<in> set pkgs" and "Errors q \<noteq> []"
  shows "checked (CheckPackages c e paths) = []
       \<and> (\<exists>p \<in> set pkgs. Errors p \<noteq> []
            \<and> outcome (CheckPackages c e paths) =
                Some (Some (ErrorsWhileLoading (ID p) (Errors p))))"
proof -
  obtain p where p: "find (\<lambda>p. Errors p \<noteq> []) pkgs = Some p"
    using assms(2,3) by (cases "find (\<lambda>p. Errors p \<noteq> []) pkgs") (auto simp: find_None_iff)
  then have mem: "p \<in> set pkgs" "Errors p \<noteq> []"
    by (auto simp: find_Some_iff)
  have "enqueue [] pkgs = Inl (ErrorsWhileLoading (ID p) (Errors p))"
    using p by (simp add: enqueue_find)
  then have "CheckPackages c e paths =
      \<lparr> checked = [], outcome = Some (Some (ErrorsWhileLoading (ID p) (Errors p))) \<rparr>"
    using assms(1) by (simp add: CheckPackages_def)
  then show ?thesis using mem by auto
qed

theorem load_diagnostic_aborts_witness:
  "load demoChecker (envOf [demoPkg, brokenPkg]) [''./...''] = Inr [demoPkg, brokenPkg]
   \<and> brokenPkg \<in> set [demoPkg, brokenPkg]
   \<and> Errors brokenPkg \<noteq> []
   \<and> Errors demoPkg = []
   \<and> CheckPackages demoChecker (envOf [demoPkg, brokenPkg]) [''./...''] =
       \<lparr> checked = [],
         outcome = Some (Some (ErrorsWhileLoading ''b'' [''b.go:3:1: undefined: x''])) \<rparr>"
proof -
  have h1: "load demoChecker (envOf [demoPkg, brokenPkg]) [''./...''] = Inr [demoPkg, brokenPkg]"
    by (simp add: load_def envOf_def)
  have h2: "brokenPkg \<in> set [demoPkg, brokenPkg]" by simp
  have h3: "Errors brokenPkg \<noteq> []" by (simp add: brokenPkg_def)
  have h4: "Errors demoPkg = []" by (simp add: demoPkg_def)
  have ids: "ID brokenPkg = ''b''" "Errors brokenPkg = [''b.go:3:1: undefined: x'']"
    by (simp_all add: brokenPkg_def)
  from load_diagnostic_aborts [OF h1 h2 h3]
  have "checked (CheckPackages demoChecker (envOf [demoPkg, brokenPkg]) [''./...'']) = []
      \<and> outcome (CheckPackages demoChecker (envOf [demoPkg, brokenPkg]) [''./...'']) =
          Some (Some (ErrorsWhileLoading ''b'' [''b.go:3:1: undefined: x'']))"
    using h4 ids by auto
  then have "CheckPackages demoChecker (envOf [demoPkg, brokenPkg]) [''./...''] =
       \<lparr> checked = [],
         outcome = Some (Some (ErrorsWhileLoading ''b'' [''b.go:3:1: undefined: x''])) \<rparr>"
    by (cases "CheckPackages demoChecker (envOf [demoPkg, brokenPkg]) [''./...'']") simp
  then show ?thesis using h1 h2 h3 h4 by simp
qed

subsection \<open>A path without Go files\<close>

text \<open>
  C9 says that a scan of a path without source files returns \<^verbatim>\<open>ErrNoGoFiles\<close>, never an
  empty success. \<^verbatim>\<open>CheckPackages\<close> never returns that value of its own: when the loader
  finds no package the scan returns nil, and when the loader reports the directory as a
  package with the error "no Go files" the scan returns the error for packages that failed
  to load.
\<close>

theorem no_go_files_not_reported:
  "CheckPackages demoChecker (envOf []) [''./empty/...''] = \<lparr> checked = [], outcome = Some None \<rparr>
   \<and> CheckPackages demoChecker (envOf [noGoFilesPkg]) [''./empty''] =
       \<lparr> checked = [],
         outcome = Some (Some (ErrorsWhileLoading ''empty'' [''no Go files in /src/empty''])) \<rparr>"
  by (simp add: CheckPackages_def load_def envOf_def finalize_def noGoFilesPkg_def)

lemma finalize_not_ErrNoGoFiles: "finalize srt u \<noteq> Some ErrNoGoFiles"
  by (simp add: finalize_def)

lemma CheckPackages_ErrNoGoFiles_only_from_loader:
  assumes "outcome (CheckPackages c e paths) = Some (Some ErrNoGoFiles)"
  shows "load c e paths = Inl ErrNoGoFiles"
proof (cases "load c e paths")
  case (Inl er)
  with assms show ?thesis by (simp add: CheckPackages_def)
next
  case (Inr pkgs)
  show ?thesis
  proof (cases "find (\<lambda>p. Errors p \<noteq> []) pkgs")
    case None
    then have "enqueue [] pkgs = Inr pkgs" by (simp add: enqueue_find)
    with Inr assms show ?thesis
      by (auto simp: CheckPackages_def Let_def finalize_not_ErrNoGoFiles split: option.splits)
  next
    case (Some p)
    then have "enqueue [] pkgs = Inl (ErrorsWhileLoading (ID p) (Errors p))"
      by (simp add: enqueue_find)
    with Inr assms show ?thesis by (simp add: CheckPackages_def)
  qed
qed

subsection \<open>Sorting and compaction\<close>

lemma Less_key: "Less a b \<longleftrightarrow> key a < key b"
  by (auto simp: Less_def key_def)

lemma sorted_by_key:
  "sorted_wrt (\<lambda>a b. \<not> Less b a) xs \<longleftrightarrow> sorted (map key xs)"
  by (simp add: sorted_map Less_key not_less)

lemma remdups_adj_snoc:
  "remdups_adj (ys @ [x]) =
     (if ys \<noteq> [] \<and> last ys = x then remdups_adj ys else remdups_adj ys @ [x])"
proof (cases ys rule: rev_cases)
  case Nil
  then show ?thesis by simp
next
  case (snoc zs z)
  then show ?thesis by (simp add: remdups_adj_append_two)
qed

lemma last_take_nth:
  assumes "0 < i" and "i \<le> length xs"
  shows "last (take i xs) = xs ! (i - 1)"
proof -
  have ne: "take i xs \<noteq> []" using assms by auto
  have "length (take i xs) = i" using assms by simp
  then have "last (take i xs) = take i xs ! (i - 1)"
    using ne by (simp add: last_conv_nth)
  also have "\<dots> = xs ! (i - 1)" using assms by simp
  finally show ?thesis .
qed

lemma set_insertLeft: "set (insertLeft x rs) = insert x (set rs)"
  by (induction rs) auto

lemma uniqLoop_inv:
  assumes "k \<le> i" and "i \<le> length xs" and "length arr = length xs"
    and "take k arr = remdups_adj (take i xs)"
    and "\<And>j. i - 1 \<le> j \<Longrightarrow> j < length xs \<Longrightarrow> arr ! j = xs ! j"
  shows "uniqLoop arr k i = remdups_adj xs"
  using assms
proof (induction arr k i rule: uniqLoop.induct)
  case (1 arr k i)
  show ?case
  proof (cases "i < length arr")
    case False
    then have "i = length xs" using "1.prems" by simp
    moreover have "uniqLoop arr k i = take k arr"
      using False by (simp add: uniqLoop.simps[of arr k i])
    ultimately show ?thesis using "1.prems"(4) by simp
  next
    case True
    then have ix: "i < length xs" using "1.prems"(3) by simp
    have cur: "arr ! i = xs ! i" using "1.prems"(5)[of i] ix by simp
    have tk: "take (Suc i) xs = take i xs @ [xs ! i]"
      using ix by (simp add: take_Suc_conv_app_nth)
    show ?thesis
    proof (cases "i = 0 \<or> arr ! i \<noteq> arr ! (i - 1)")
      case keep: True
      let ?arr = "arr[k := arr ! i]"
      have kl: "k < length arr" using "1.prems"(1) True by simp
      have t1: "take (Suc k) ?arr = take k arr @ [xs ! i]"
        using kl cur by (simp add: take_Suc_conv_app_nth)
      have differs: "take i xs = [] \<or> last (take i xs) \<noteq> xs ! i"
      proof (cases "i = 0")
        case True
        then show ?thesis by simp
      next
        case False
        then have "arr ! (i - 1) = xs ! (i - 1)" using "1.prems"(5)[of "i - 1"] ix by simp
        moreover have "last (take i xs) = xs ! (i - 1)"
          using False ix by (intro last_take_nth) simp_all
        ultimately show ?thesis using keep False cur by simp
      qed
      have t2: "take (Suc k) ?arr = remdups_adj (take (Suc i) xs)"
        unfolding t1 tk using "1.prems"(4) differs by (auto simp: remdups_adj_snoc)
      have rest: "?arr ! j = xs ! j" if "Suc i - 1 \<le> j" "j < length xs" for j
      proof (cases "j = k")
        case True
        then have "j = i" using that "1.prems"(1) by simp
        then show ?thesis using True kl cur by simp
      next
        case False
        then have "?arr ! j = arr ! j" by simp
        then show ?thesis using "1.prems"(5)[of j] that by simp
      qed
      have "uniqLoop ?arr (Suc k) (Suc i) = remdups_adj xs"
        using True keep "1.prems"(1,3) ix t2 rest
        by (intro "1.IH"(1)) simp_all
      then show ?thesis using True keep by (simp add: uniqLoop.simps[of arr k i])
    next
      case drop: False
      then have i0: "i \<noteq> 0" and same: "arr ! i = arr ! (i - 1)" by simp_all
      have prev: "arr ! (i - 1) = xs ! (i - 1)" using "1.prems"(5)[of "i - 1"] ix by simp
      have lst: "last (take i xs) = xs ! (i - 1)"
        using i0 ix by (intro last_take_nth) simp_all
      have ne: "take i xs \<noteq> []" using i0 ix by auto
      have t2: "take k arr = remdups_adj (take (Suc i) xs)"
        unfolding tk using "1.prems"(4) ne lst same cur prev by (simp add: remdups_adj_snoc)
      have rest: "arr ! j = xs ! j" if "Suc i - 1 \<le> j" "j < length xs" for j
        using "1.prems"(5)[of j] that by simp
      have "uniqLoop arr k (Suc i) = remdups_adj xs"
        using True drop "1.prems"(1,3) ix t2 rest
        by (intro "1.IH"(2)) simp_all
      then show ?thesis using True drop by (simp add: uniqLoop.simps[of arr k i])
    qed
  qed
qed

lemma uniqLoop_remdups_adj: "uniqLoop xs 0 0 = remdups_adj xs"
  by (rule uniqLoop_inv) simp_all

lemma distinct_remdups_adj_sorted:
  fixes xs :: "'a::linorder list"
  assumes "sorted xs"
  shows "distinct (remdups_adj xs)"
  using assms
proof (induction xs rule: remdups_adj.induct)
  case (3 x y xs)
  show ?case
  proof (cases "x = y")
    case True
    then show ?thesis using 3 by simp
  next
    case False
    have "x \<notin> set (y # xs)" using "3.prems" False by auto
    then show ?thesis using 3 False by simp
  qed
qed simp_all

lemma remdups_adj_map_inj_on:
  assumes "inj_on f (set xs)"
  shows "remdups_adj (map f xs) = map f (remdups_adj xs)"
  using assms
proof (induction xs rule: remdups_adj.induct)
  case (3 x y xs)
  have "f x = f y \<longleftrightarrow> x = y" using "3.prems" by (auto simp: inj_on_def)
  moreover have "inj_on f (set (x # xs))" "inj_on f (set (y # xs))"
    using "3.prems" by (auto simp: inj_on_def)
  ultimately show ?case using "3.IH" by simp
qed simp_all

lemma sorted_unique:
  assumes "sorts_byName srt" and "mset u1 = mset u2" and "inj_on key (set u1)"
  shows "srt u1 = srt u2"
proof -
  have m: "mset (srt u1) = mset (srt u2)"
    using assms(1,2) by (simp add: sorts_byName_def)
  have s1: "sorted (map key (srt u1))" and s2: "sorted (map key (srt u2))"
    using assms(1) by (simp_all add: sorts_byName_def sorted_by_key)
  have "mset (map key (srt u1)) = mset (map key (srt u2))" using m by simp
  then have "sort (map key (srt u2)) = map key (srt u1)"
    using s1 by (rule properties_for_sort)
  moreover have "sort (map key (srt u2)) = map key (srt u2)"
    using s2 by (rule sorted_sort_id)
  ultimately have keys: "map key (srt u1) = map key (srt u2)" by simp
  have "mset (srt u1) = mset u1" using assms(1) by (simp add: sorts_byName_def)
  then have e1: "set (srt u1) = set u1" by (rule mset_eq_setD)
  have "mset (srt u2) = mset u1" using assms(1,2) by (simp add: sorts_byName_def)
  then have e2: "set (srt u2) = set u1" by (rule mset_eq_setD)
  from e1 e2 have "inj_on key (set (srt u1) \<union> set (srt u2))" using assms(3) by simp
  with keys show ?thesis by (rule map_inj_on)
qed

lemma mset_insertLeft: "mset (insertLeft x rs) = add_mset x (mset rs)"
  by (induction rs) auto

lemma sorted_insertLeft:
  assumes "sorted (rev (map key rs))"
  shows "sorted (rev (map key (insertLeft x rs)))"
  using assms
proof (induction rs)
  case Nil
  then show ?case by simp
next
  case (Cons y rs)
  have below: "\<forall>k \<in> set (map key rs). k \<le> key y" and tl: "sorted (rev (map key rs))"
    using Cons.prems by (auto simp: sorted_append)
  show ?case
  proof (cases "Less x y")
    case True
    then have "key x < key y" by (simp add: Less_key)
    moreover have "set (map key (insertLeft x rs)) = insert (key x) (set (map key rs))"
      by (simp add: set_insertLeft)
    ultimately show ?thesis using True below Cons.IH[OF tl]
      by (auto simp: sorted_append)
  next
    case False
    then have "key y \<le> key x" by (simp add: Less_key not_less)
    then show ?thesis using False below Cons.prems
      by (auto simp: sorted_append intro: order_trans)
  qed
qed

lemma foldl_insertLeft:
  "mset (foldl (\<lambda>rs x. insertLeft x rs) acc xs) = mset acc + mset xs
   \<and> (sorted (rev (map key acc)) \<longrightarrow>
        sorted (rev (map key (foldl (\<lambda>rs x. insertLeft x rs) acc xs))))"
  by (induction xs arbitrary: acc) (simp_all add: mset_insertLeft sorted_insertLeft)

lemma insertionSort_sorts: "sorts_byName insertionSort"
proof -
  have "mset (insertionSort xs) = mset xs
      \<and> sorted_wrt (\<lambda>a b. \<not> Less b a) (insertionSort xs)" for xs
    using foldl_insertLeft[of "[]" xs]
    by (simp add: insertionSort_def sorted_by_key rev_map)
  then show ?thesis by (simp add: sorts_byName_def)
qed

lemma finalize_remdups:
  "finalize srt u = (if u = [] then None else Some (UncheckedErrors (remdups_adj (srt u))))"
  by (simp add: finalize_def uniqLoop_remdups_adj)

lemma count_remdups_adj_sorted:
  assumes "sorted (map key zs)"
    and "\<forall>x \<in> set zs. key x = key e \<longrightarrow> x = e"
  shows "count_list (remdups_adj zs) e = (if e \<in> set zs then 1 else 0)"
  using assms
proof (induction zs rule: remdups_adj.induct)
  case 1
  show ?case by simp
next
  case (2 x)
  show ?case by simp
next
  case (3 x y xs)
  show ?case
  proof (cases "x = y")
    case True
    then show ?thesis using 3 by simp
  next
    case False
    have rest: "count_list (remdups_adj (y # xs)) e = (if e \<in> set (y # xs) then 1 else 0)"
      using "3.IH"(2)[OF False] "3.prems" by simp
    have "e \<notin> set (y # xs)" if "x = e"
    proof
      assume mem: "e \<in> set (y # xs)"
      have "key x \<le> key y" using "3.prems"(1) by simp
      moreover have "key y \<le> key e" using "3.prems"(1) mem by auto
      ultimately have "key y = key e" using that by simp
      then have "y = e" using "3.prems"(2) by simp
      with that False show False by simp
    qed
    then show ?thesis using False rest by auto
  qed
qed

lemma final_list:
  assumes "sorts_byName srt" and "inj_on key (set u)"
  shows "sorted (map key (remdups_adj (srt u)))
       \<and> distinct (map key (remdups_adj (srt u)))
       \<and> set (remdups_adj (srt u)) = set u"
proof -
  have "mset (srt u) = mset u" using assms(1) by (simp add: sorts_byName_def)
  then have st: "set (srt u) = set u" by (rule mset_eq_setD)
  have so: "sorted (map key (srt u))"
    using assms(1) by (simp add: sorts_byName_def sorted_by_key)
  have "inj_on key (set (srt u))" using assms(2) st by simp
  then have m: "map key (remdups_adj (srt u)) = remdups_adj (map key (srt u))"
    by (simp add: remdups_adj_map_inj_on)
  show ?thesis
    unfolding m using so st by (simp add: distinct_remdups_adj_sorted)
qed

subsection \<open>Scans of the example packages\<close>

lemmas pkg_defs = yaccPkg_def yaccPkgTest_def yaccPkgA_def yaccPkgB_def pkgA_def pkgATest_def pkgR_def
  yaccFile_def closeFile_def flushFile_def recoverFile_def yaccFset_def
  closeFinding_def recoverFinding_def yaccCloseFinding_def yaccFlushFinding_def

lemmas visit_defs = Visit_def query_defs addErrorAtPosition_def readfile_def shouldSkipFile_def

lemma gomod_demo: "TrimSpace ''/src/go.mod'' \<noteq> []"
  by (simp add: trim_defs)

lemma trim_recover: "TrimSpace (CHR 0x09 # ''recover()'') = ''recover()''"
  by (simp add: trim_defs)

lemma worker_yaccPkg:
  "checkPackage demoChecker demoDisk Map.empty (\<lambda>sym. False) True yaccPkg =
     Some [yaccCloseFinding, yaccFlushFinding]"
  by (simp add: checkPackage_def newVisitor_def pkg_defs visit_defs demo_defs Let_def)

lemma worker_yaccPkgTest:
  "checkPackage demoChecker demoDisk Map.empty (\<lambda>sym. False) True yaccPkgTest =
     Some [yaccCloseFinding, yaccFlushFinding]"
  by (simp add: checkPackage_def newVisitor_def pkg_defs visit_defs demo_defs Let_def)

lemma worker_yaccPkgA:
  "checkPackage demoChecker demoDisk Map.empty (\<lambda>sym. False) True yaccPkgA = Some [yaccCloseFinding]"
  by (simp add: checkPackage_def newVisitor_def pkg_defs visit_defs demo_defs Let_def)

lemma worker_yaccPkgB:
  "checkPackage demoChecker demoDisk Map.empty (\<lambda>sym. False) True yaccPkgB = Some [yaccFlushFinding]"
  by (simp add: checkPackage_def newVisitor_def pkg_defs visit_defs demo_defs Let_def)

lemma worker_pkgA:
  "checkPackage demoChecker demoDisk Map.empty (\<lambda>sym. False) True pkgA = Some [closeFinding]"
  by (simp add: checkPackage_def newVisitor_def pkg_defs visit_defs demo_defs Let_def trim_close)

lemma worker_pkgATest:
  "checkPackage demoChecker demoDisk Map.empty (\<lambda>sym. False) True pkgATest =
     Some [closeFinding, recoverFinding]"
  by (simp add: checkPackage_def newVisitor_def pkg_defs visit_defs demo_defs Let_def
      trim_close trim_recover)

lemma worker_pkgR:
  "checkPackage demoChecker demoDisk Map.empty (\<lambda>sym. False) True pkgR = Some [recoverFinding]"
  by (simp add: checkPackage_def newVisitor_def pkg_defs visit_defs demo_defs Let_def trim_recover)

lemma scan_envOf:
  assumes "list_all (\<lambda>p. Errors p = []) pkgs"
  shows "CheckPackages demoChecker ((envOf pkgs)\<lparr>schedule := sched\<rparr>) paths =
     \<lparr> checked = map ID (sched pkgs),
       outcome =
         (case appendAll [] (map (checkPackage demoChecker demoDisk Map.empty (\<lambda>sym. False) True) (sched pkgs)) of
            None \<Rightarrow> None
          | Some u \<Rightarrow> Some (finalize insertionSort u)) \<rparr>"
proof -
  have "find (\<lambda>p. Errors p \<noteq> []) pkgs = None"
    using assms by (simp add: find_None_iff list_all_iff)
  then have "enqueue [] pkgs = Inr pkgs" by (simp add: enqueue_find)
  then show ?thesis
    by (simp add: CheckPackages_def load_def envOf_def Let_def gomod_demo demoChecker_def
        cong: option.case_cong)
qed

lemma fair_examples: "fair id \<and> fair rev \<and> fair (\<lambda>work. work)"
  by (simp add: fair_def)

lemma envOf_schedule: "(envOf pkgs)\<lparr>schedule := (\<lambda>work. work)\<rparr> = envOf pkgs"
  by (simp add: envOf_def)

lemma scan_envOf_queue_order:
  assumes "list_all (\<lambda>p. Errors p = []) pkgs"
  shows "CheckPackages demoChecker (envOf pkgs) paths =
     \<lparr> checked = map ID pkgs,
       outcome =
         (case appendAll [] (map (checkPackage demoChecker demoDisk Map.empty (\<lambda>sym. False) True) pkgs) of
            None \<Rightarrow> None
          | Some u \<Rightarrow> Some (finalize insertionSort u)) \<rparr>"
  using scan_envOf[OF assms, of "\<lambda>work. work" paths] by (simp only: envOf_schedule)

lemma no_load_errors:
  "list_all (\<lambda>p. Errors p = []) [yaccPkg]
   \<and> list_all (\<lambda>p. Errors p = []) [yaccPkgA, yaccPkgB]
   \<and> list_all (\<lambda>p. Errors p = []) [pkgA, pkgATest]
   \<and> list_all (\<lambda>p. Errors p = []) [pkgA, pkgR]"
  by (simp add: pkg_defs demoPkg_def)

lemma finalize_yacc:
  "finalize insertionSort [yaccCloseFinding, yaccFlushFinding] =
     Some (UncheckedErrors [yaccCloseFinding, yaccFlushFinding])
   \<and> finalize insertionSort [yaccFlushFinding, yaccCloseFinding] =
     Some (UncheckedErrors [yaccFlushFinding, yaccCloseFinding])"
  by (simp add: finalize_remdups insertionSort_def Less_def pkg_defs)

lemma finalize_variants:
  "finalize insertionSort [closeFinding, closeFinding, recoverFinding] =
     Some (UncheckedErrors [closeFinding, recoverFinding])
   \<and> finalize insertionSort [closeFinding, recoverFinding] =
     Some (UncheckedErrors [closeFinding, recoverFinding])
   \<and> finalize insertionSort [recoverFinding, closeFinding] =
     Some (UncheckedErrors [closeFinding, recoverFinding])"
  by (simp add: finalize_remdups insertionSort_def Less_def pkg_defs)

subsection \<open>No two findings with the same file, line, column and text\<close>

text \<open>
  C3, as stated: after the sort and the removal of adjacent duplicates no two findings are
  equal in file, line, column and line text. It fails for a file under a \<^verbatim>\<open>//line\<close> directive
  without a column: \<^verbatim>\<open>fh.Close(); w.Flush()\<close> yields two findings at line 42, column 0 with
  the same text, which differ in their function names (and offsets) and both stay in the final
  list, because the compaction compares whole findings.
\<close>

theorem equal_keys_survive:
  "outcome (CheckPackages demoChecker (envOf [yaccPkg]) [''./...'']) =
     Some (Some (UncheckedErrors [yaccCloseFinding, yaccFlushFinding]))
   \<and> key yaccCloseFinding = key yaccFlushFinding
   \<and> yaccCloseFinding \<noteq> yaccFlushFinding"
proof -
  have "list_all (\<lambda>p. Errors p = []) [yaccPkg]" using no_load_errors by simp
  then have "outcome (CheckPackages demoChecker (envOf [yaccPkg]) [''./...'']) =
      Some (finalize insertionSort [yaccCloseFinding, yaccFlushFinding])"
    by (simp add: scan_envOf_queue_order worker_yaccPkg)
  moreover have "key yaccCloseFinding = key yaccFlushFinding
      \<and> yaccCloseFinding \<noteq> yaccFlushFinding"
    by (simp add: key_def pkg_defs)
  ultimately show ?thesis using finalize_yacc by simp
qed

text \<open>
  C3, amended: after the sort and the removal of adjacent duplicates the final list holds
  exactly the findings collected and no two neighbours in it are identical. A finding that
  no different finding equals in file, line, column and line text occurs in it exactly
  once, however often it was collected; so when two package variants share one physical
  file whose offending line yields one finding, exactly one issue for it remains, not two.
  If no two different findings are equal in file, line, column and line text, then no two
  entries of the final list are.
\<close>

theorem finalize_no_duplicates:
  assumes "sorts_byName srt"
  shows "(u \<noteq> [] \<longrightarrow>
           (\<exists>ys. finalize srt u = Some (UncheckedErrors ys)
              \<and> set ys = set u
              \<and> (\<forall>i. Suc i < length ys \<longrightarrow> ys ! i \<noteq> ys ! Suc i)
              \<and> (\<forall>e \<in> set u. (\<forall>x \<in> set u. key x = key e \<longrightarrow> x = e) \<longrightarrow> count_list ys e = 1)
              \<and> (inj_on key (set u) \<longrightarrow> distinct (map key ys))))
       \<and> finalize srt [e, e] = Some (UncheckedErrors [e])"
proof -
  have general: "\<exists>ys. finalize srt u = Some (UncheckedErrors ys)
              \<and> set ys = set u
              \<and> (\<forall>i. Suc i < length ys \<longrightarrow> ys ! i \<noteq> ys ! Suc i)
              \<and> (\<forall>e \<in> set u. (\<forall>x \<in> set u. key x = key e \<longrightarrow> x = e) \<longrightarrow> count_list ys e = 1)
              \<and> (inj_on key (set u) \<longrightarrow> distinct (map key ys))"
    if ne: "u \<noteq> []"
  proof -
    let ?ys = "remdups_adj (srt u)"
    have "mset (srt u) = mset u" using assms by (simp add: sorts_byName_def)
    then have st: "set (srt u) = set u" by (rule mset_eq_setD)
    have so: "sorted (map key (srt u))"
      using assms by (simp add: sorts_byName_def sorted_by_key)
    have f: "finalize srt u = Some (UncheckedErrors ?ys)"
      using ne by (simp add: finalize_remdups)
    have s: "set ?ys = set u" using st by simp
    have adj: "\<forall>i. Suc i < length ?ys \<longrightarrow> ?ys ! i \<noteq> ?ys ! Suc i"
      by (simp add: remdups_adj_adjacent)
    have once: "count_list ?ys e = 1"
      if "e \<in> set u" "\<forall>x \<in> set u. key x = key e \<longrightarrow> x = e" for e
      using count_remdups_adj_sorted[OF so, of e] that st by simp
    have dist: "distinct (map key ?ys)" if "inj_on key (set u)"
      using final_list[OF assms that] by simp
    show ?thesis using f s adj once dist by blast
  qed
  have "mset (srt [e, e]) = mset [e, e]" using assms by (simp add: sorts_byName_def)
  then have "length (srt [e, e]) = length [e, e]" "set (srt [e, e]) = set [e, e]"
    by (rule mset_eq_length, rule mset_eq_setD)
  then have "length (srt [e, e]) = Suc (Suc 0)" "\<forall>y \<in> set (srt [e, e]). y = e"
    by simp_all
  then have "replicate (Suc (Suc 0)) e = srt [e, e]"
    using replicate_length_same[of "srt [e, e]" e] by simp
  then have "srt [e, e] = [e, e]" by simp
  then have pair: "finalize srt [e, e] = Some (UncheckedErrors [e])"
    by (simp add: finalize_remdups)
  show ?thesis using general pair by blast
qed

theorem finalize_no_duplicates_witness:
  "sorts_byName insertionSort
   \<and> [closeFinding, closeFinding, recoverFinding] \<noteq> []
   \<and> inj_on key (set [closeFinding, closeFinding, recoverFinding])
   \<and> (\<exists>ys. finalize insertionSort [closeFinding, closeFinding, recoverFinding] =
              Some (UncheckedErrors ys)
          \<and> set ys = set [closeFinding, closeFinding, recoverFinding]
          \<and> count_list ys closeFinding = 1
          \<and> distinct (map key ys))
   \<and> finalize insertionSort [closeFinding, closeFinding] = Some (UncheckedErrors [closeFinding])
   \<and> finalize insertionSort [closeFinding, closeFinding, recoverFinding] =
       Some (UncheckedErrors [closeFinding, recoverFinding])
   \<and> outcome (CheckPackages demoChecker (envOf [pkgA, pkgATest]) [''./...'']) =
       Some (Some (UncheckedErrors [closeFinding, recoverFinding]))"
proof -
  let ?u = "[closeFinding, closeFinding, recoverFinding]"
  have h1: "sorts_byName insertionSort" by (rule insertionSort_sorts)
  have h2: "inj_on key (set ?u)"
    by (simp add: key_def pkg_defs)
  have h3: "?u \<noteq> []" by simp
  have h4: "closeFinding \<in> set ?u \<and> (\<forall>x \<in> set ?u. key x = key closeFinding \<longrightarrow> x = closeFinding)"
    by (simp add: key_def pkg_defs)
  have ok: "list_all (\<lambda>p. Errors p = []) [pkgA, pkgATest]" using no_load_errors by simp
  have sc: "outcome (CheckPackages demoChecker (envOf [pkgA, pkgATest]) [''./...'']) =
      Some (finalize insertionSort ?u)"
    by (simp add: scan_envOf_queue_order[OF ok] worker_pkgA worker_pkgATest)
  note inst = finalize_no_duplicates [OF h1, where u = ?u and e = closeFinding]
  have a: "\<exists>ys. finalize insertionSort ?u = Some (UncheckedErrors ys)
          \<and> set ys = set ?u \<and> count_list ys closeFinding = 1 \<and> distinct (map key ys)"
    using inst h2 h3 h4 by blast
  have b: "finalize insertionSort [closeFinding, closeFinding] = Some (UncheckedErrors [closeFinding])"
    using inst by (rule conjunct2)
  show ?thesis
    using h1 h2 h3 a b finalize_variants sc by (simp only: simp_thms)
qed

text \<open>
  The comment at the compaction says that duplicates arise when a file with a finding
  belongs to more than one package, and that they are removed. They stay when the shared
  line yields two findings that \<^verbatim>\<open>Less\<close> does not order: the package of the file under the
  \<^verbatim>\<open>//line\<close> directive and its test variant both report \<^verbatim>\<open>fh.Close()\<close> and \<^verbatim>\<open>w.Flush()\<close>, the
  sort leaves the four findings as they arrived, no two neighbours are identical, and the
  final list holds each finding twice.
\<close>

theorem shared_tied_findings_stay_twice:
  "outcome (CheckPackages demoChecker (envOf [yaccPkg, yaccPkgTest]) [''./...'']) =
     Some (Some (UncheckedErrors
       [yaccCloseFinding, yaccFlushFinding, yaccCloseFinding, yaccFlushFinding]))"
proof -
  have ok: "list_all (\<lambda>p. Errors p = []) [yaccPkg, yaccPkgTest]"
    by (simp add: pkg_defs demoPkg_def)
  have "outcome (CheckPackages demoChecker (envOf [yaccPkg, yaccPkgTest]) [''./...'']) =
      Some (finalize insertionSort
        [yaccCloseFinding, yaccFlushFinding, yaccCloseFinding, yaccFlushFinding])"
    by (simp add: scan_envOf_queue_order[OF ok] worker_yaccPkg worker_yaccPkgTest)
  moreover have "finalize insertionSort
        [yaccCloseFinding, yaccFlushFinding, yaccCloseFinding, yaccFlushFinding] =
      Some (UncheckedErrors
        [yaccCloseFinding, yaccFlushFinding, yaccCloseFinding, yaccFlushFinding])"
    by (simp add: finalize_remdups insertionSort_def Less_def pkg_defs)
  ultimately show ?thesis by simp
qed

subsection \<open>The order in which the workers finish\<close>

lemma appendAll_concat:
  "appendAll u rs = (if None \<in> set rs then None else Some (u @ concat (map the rs)))"
proof (induction rs arbitrary: u)
  case Nil
  show ?case by simp
next
  case (Cons r rs)
  then show ?case by (cases r) auto
qed

lemma mset_concat_perm:
  assumes "mset xss = mset yss"
  shows "mset (concat xss) = mset (concat yss)"
proof -
  have "mset (concat zss) = sum_mset (image_mset mset (mset zss))" for zss :: "'a list list"
    by (simp add: mset_concat flip: sum_mset_sum_list)
  then show ?thesis using assms by simp
qed

lemma finalize_perm:
  assumes "sorts_byName srt" and "mset u1 = mset u2"
    and "\<And>ys. finalize srt u1 = Some (UncheckedErrors ys) \<Longrightarrow> distinct (map key ys)"
  shows "finalize srt u2 = finalize srt u1"
proof (cases "u1 = []")
  case True
  then have "u2 = []" using assms(2) by simp
  with True show ?thesis by simp
next
  case False
  then have ne: "u2 \<noteq> []" using assms(2) by auto
  have "distinct (map key (remdups_adj (srt u1)))"
    using assms(3) False by (simp add: finalize_remdups)
  then have "inj_on key (set (remdups_adj (srt u1)))" by (simp add: distinct_map)
  moreover have "mset (srt u1) = mset u1" using assms(1) by (simp add: sorts_byName_def)
  then have "set (srt u1) = set u1" by (rule mset_eq_setD)
  ultimately have "inj_on key (set u1)" by simp
  with assms(1,2) have "srt u1 = srt u2" by (rule sorted_unique)
  then show ?thesis using False ne by (simp add: finalize_remdups)
qed

text \<open>
  C2, as stated: two scans of the same packages with the same configuration return the
  same final list, whatever the order in which the workers finish. It fails when findings
  of two packages agree in file, line, column and line text and differ in the function
  name: \<^verbatim>\<open>Less\<close> does not order them, the insertion sort of \<^verbatim>\<open>sort.Sort\<close> keeps them in the
  order of arrival, and the compaction keeps both.
\<close>

theorem schedule_changes_result:
  "sorts_byName insertionSort \<and> fair id \<and> fair rev
   \<and> outcome (CheckPackages demoChecker ((envOf [yaccPkgA, yaccPkgB])\<lparr>schedule := id\<rparr>) [''./...'']) =
       Some (Some (UncheckedErrors [yaccCloseFinding, yaccFlushFinding]))
   \<and> outcome (CheckPackages demoChecker ((envOf [yaccPkgA, yaccPkgB])\<lparr>schedule := rev\<rparr>) [''./...'']) =
       Some (Some (UncheckedErrors [yaccFlushFinding, yaccCloseFinding]))"
proof -
  have ok: "list_all (\<lambda>p. Errors p = []) [yaccPkgA, yaccPkgB]" using no_load_errors by simp
  have "outcome (CheckPackages demoChecker ((envOf [yaccPkgA, yaccPkgB])\<lparr>schedule := id\<rparr>) [''./...'']) =
      Some (finalize insertionSort [yaccCloseFinding, yaccFlushFinding])"
    by (simp add: scan_envOf[OF ok] worker_yaccPkgA worker_yaccPkgB)
  moreover
  have "outcome (CheckPackages demoChecker ((envOf [yaccPkgA, yaccPkgB])\<lparr>schedule := rev\<rparr>) [''./...'']) =
      Some (finalize insertionSort [yaccFlushFinding, yaccCloseFinding])"
    by (simp add: scan_envOf[OF ok] worker_yaccPkgA worker_yaccPkgB)
  ultimately show ?thesis
    using finalize_yacc insertionSort_sorts fair_examples by simp
qed

text \<open>
  C2, amended: if the final list of a scan has no two entries equal in file, line, column
  and line text, then every scan of the same packages with the same configuration returns
  the same result (the same final list, element for element, or the same error or panic),
  whatever the order in which the workers finish, for any \<^verbatim>\<open>sort.Sort\<close> that sorts.
\<close>

theorem scan_deterministic:
  assumes "sorts_byName (sort_Sort e)" and "fair (schedule e)" and "fair sched"
    and "distinct (map key (reported (CheckPackages c e paths)))"
  shows "outcome (CheckPackages c (e\<lparr>schedule := sched\<rparr>) paths) =
         outcome (CheckPackages c e paths)"
proof (cases "load c e paths")
  case (Inl er)
  then show ?thesis by (simp add: CheckPackages_def load_def)
next
  case (Inr pkgs)
  then have ld: "load c (e\<lparr>schedule := sched\<rparr>) paths = Inr pkgs" by (simp add: load_def)
  show ?thesis
  proof (cases "enqueue [] pkgs")
    case (Inl er)
    with Inr ld show ?thesis by (simp add: CheckPackages_def)
  next
    case work: (Inr work)
    define g where "g = (case goEnvGOMOD e of None \<Rightarrow> False | Some gomod \<Rightarrow> TrimSpace gomod \<noteq> [])"
    define worker where "worker =
      checkPackage c (disk e) (ignoreMap g (Packages (Exclusions c)) Map.empty)
        (\<lambda>sym. sym \<in> set (Symbols (Exclusions c))) g"
    let ?rs1 = "map worker (schedule e work)"
    let ?rs2 = "map worker (sched work)"
    have o1: "outcome (CheckPackages c e paths) =
        (case appendAll [] ?rs1 of None \<Rightarrow> None
         | Some u \<Rightarrow> Some (finalize (sort_Sort e) u))"
      using Inr work by (simp add: CheckPackages_def Let_def g_def worker_def)
    have o2: "outcome (CheckPackages c (e\<lparr>schedule := sched\<rparr>) paths) =
        (case appendAll [] ?rs2 of None \<Rightarrow> None
         | Some u \<Rightarrow> Some (finalize (sort_Sort e) u))"
      using ld work
      by (simp add: CheckPackages_def Let_def g_def worker_def cong: option.case_cong)
    have "mset (schedule e work) = mset (sched work)"
      using assms(2,3) by (simp add: fair_def)
    then have ms: "mset ?rs1 = mset ?rs2" by simp
    then have sets: "set ?rs1 = set ?rs2" by (rule mset_eq_setD)
    show ?thesis
    proof (cases "None \<in> set ?rs1")
      case True
      then have "None \<in> set ?rs2" using sets by simp
      with True show ?thesis unfolding o1 o2 by (simp add: appendAll_concat)
    next
      case False
      then have n2: "None \<notin> set ?rs2" using sets by simp
      let ?u1 = "concat (map the ?rs1)"
      let ?u2 = "concat (map the ?rs2)"
      have "mset (map the ?rs1) = mset (map the ?rs2)"
        using ms by (metis mset_map)
      then have mu: "mset ?u1 = mset ?u2" by (rule mset_concat_perm)
      have r1: "outcome (CheckPackages c e paths) = Some (finalize (sort_Sort e) ?u1)"
        unfolding o1 using False by (simp add: appendAll_concat)
      have r2: "outcome (CheckPackages c (e\<lparr>schedule := sched\<rparr>) paths) =
                Some (finalize (sort_Sort e) ?u2)"
        unfolding o2 using n2 by (simp add: appendAll_concat)
      have "distinct (map key ys)" if "finalize (sort_Sort e) ?u1 = Some (UncheckedErrors ys)" for ys
      proof -
        have "reported (CheckPackages c e paths) = ys"
          using r1 that by (simp add: reported_def)
        then show ?thesis using assms(4) by simp
      qed
      with assms(1) mu have "finalize (sort_Sort e) ?u2 = finalize (sort_Sort e) ?u1"
        by (rule finalize_perm)
      then show ?thesis using r1 r2 by simp
    qed
  qed
qed

theorem scan_deterministic_witness:
  "sorts_byName (sort_Sort (envOf [pkgA, pkgR]))
   \<and> fair (schedule (envOf [pkgA, pkgR]))
   \<and> fair rev
   \<and> reported (CheckPackages demoChecker (envOf [pkgA, pkgR]) [''./...'']) =
       [closeFinding, recoverFinding]
   \<and> distinct (map key [closeFinding, recoverFinding])
   \<and> outcome (CheckPackages demoChecker ((envOf [pkgA, pkgR])\<lparr>schedule := rev\<rparr>) [''./...'']) =
       outcome (CheckPackages demoChecker (envOf [pkgA, pkgR]) [''./...''])
   \<and> outcome (CheckPackages demoChecker (envOf [pkgA, pkgR]) [''./...'']) =
       Some (Some (UncheckedErrors [closeFinding, recoverFinding]))"
proof -
  have h1: "sorts_byName (sort_Sort (envOf [pkgA, pkgR]))"
    using insertionSort_sorts by (simp add: envOf_def)
  have h2: "fair (schedule (envOf [pkgA, pkgR]))"
    using fair_examples by (simp add: envOf_def)
  have h3: "fair rev" using fair_examples by simp
  have ok: "list_all (\<lambda>p. Errors p = []) [pkgA, pkgR]" using no_load_errors by simp
  have sc: "outcome (CheckPackages demoChecker (envOf [pkgA, pkgR]) [''./...'']) =
      Some (Some (UncheckedErrors [closeFinding, recoverFinding]))"
    using finalize_variants
    by (simp add: scan_envOf_queue_order[OF ok] worker_pkgA worker_pkgR)
  then have rp: "reported (CheckPackages demoChecker (envOf [pkgA, pkgR]) [''./...'']) =
       [closeFinding, recoverFinding]"
    by (simp add: reported_def)
  have d: "distinct (map key [closeFinding, recoverFinding])"
    by (simp add: key_def pkg_defs)
  then have h4: "distinct (map key (reported (CheckPackages demoChecker (envOf [pkgA, pkgR]) [''./...''])))"
    using rp by simp
  show ?thesis
    using h1 h2 h3 rp d sc scan_deterministic [OF h1 h2 h3 h4]
    by (simp only: simp_thms)
qed

end
